theory Spec2Isabelle
  imports Complex_Main
begin

section \<open>JavaScript values\<close>

text \<open>
  Numbers of the program are JavaScript doubles.  They are modelled as exact rationals:
  rounding, infinities and negative zero are outside the model.  Where the source can
  produce \<open>NaN\<close> from a string (\<open>parseInt\<close>) or from a remainder by zero, the
  value is a \<open>jsnum\<close>.  A string is a list of code units below 256.
\<close>

datatype jsnum = Num rat | NaN

definition js_div :: "jsnum \<Rightarrow> rat \<Rightarrow> jsnum" where
  "js_div x d = (case x of NaN \<Rightarrow> NaN | Num q \<Rightarrow> Num (q / d))"

text \<open>\<open>a % b\<close>: the remainder has the sign of the dividend, and is \<open>NaN\<close> for \<open>b = 0\<close>.\<close>

definition js_mod :: "rat \<Rightarrow> rat \<Rightarrow> jsnum" where
  "js_mod a b =
     (if b = 0 then NaN
      else Num (a - b * of_int (if 0 \<le> a / b then \<lfloor>a / b\<rfloor> else \<lceil>a / b\<rceil>)))"

text \<open>\<open>s.slice(a, b)\<close> for literal indices \<open>0 \<le> a \<le> b\<close>.\<close>

definition slice :: "nat \<Rightarrow> nat \<Rightarrow> string \<Rightarrow> string" where
  "slice a b s = take (b - a) (drop a s)"

definition isWhiteSpace :: "char \<Rightarrow> bool" where
  "isWhiteSpace c = ((of_char c :: nat) \<in> {9, 10, 11, 12, 13, 32, 160})"

definition hexDigit :: "char \<Rightarrow> nat option" where
  "hexDigit c =
     (let n = (of_char c :: nat) in
      if 48 \<le> n \<and> n \<le> 57 then Some (n - 48)
      else if 97 \<le> n \<and> n \<le> 102 then Some (n - 87)
      else if 65 \<le> n \<and> n \<le> 70 then Some (n - 55)
      else None)"

definition isHexDigit :: "char \<Rightarrow> bool" where
  "isHexDigit c = (hexDigit c \<noteq> None)"

definition hexValue :: "string \<Rightarrow> nat" where
  "hexValue z = foldl (\<lambda>acc c. 16 * acc + (case hexDigit c of Some d \<Rightarrow> d | None \<Rightarrow> 0)) 0 z"

text \<open>
  \<open>parseInt(input, 16)\<close> of ECMAScript: leading white space is skipped, one sign is
  read, a \<open>0x\<close> or \<open>0X\<close> prefix is dropped, and the longest run of hexadecimal digits
  that follows is the value; an empty run gives \<open>NaN\<close>.
\<close>

definition stripSign :: "string \<Rightarrow> string" where
  "stripSign s = (case s of [] \<Rightarrow> [] | c # cs \<Rightarrow> if c = CHR ''+'' \<or> c = CHR ''-'' then cs else s)"

definition stripPrefix :: "string \<Rightarrow> string" where
  "stripPrefix s = (if take 2 s = ''0x'' \<or> take 2 s = ''0X'' then drop 2 s else s)"

definition parseInt16 :: "string \<Rightarrow> jsnum" where
  "parseInt16 input =
     (let s = dropWhile isWhiteSpace input;
          negative = (take 1 s = ''-'');
          z = takeWhile isHexDigit (stripPrefix (stripSign s))
      in if z = [] then NaN
         else Num (of_int ((if negative then - 1 else 1) * int (hexValue z))))"

section \<open>SpineRenderer\<close>

text \<open>
  The fields of \<open>SpineRenderer\<close> that the export path reads or writes.  \<open>skeleton\<close>
  stands for the pair \<open>skeleton\<close>/\<open>state\<close> (set and cleared together by \<open>load\<close>) and
  holds the animations of the skeleton data with their durations; \<open>track\<close> is
  \<open>state.getCurrent(0)\<close>; \<open>bounds\<close> and \<open>globalBounds\<close> say whether the field is
  non-null; \<open>urls\<close> lists the live blob URLs; \<open>gl\<close> is the command stream sent to the
  WebGL context.
\<close>

datatype error =
    AbortError
  | MissingFiles
  | LoadFailed
  | AnimationNotFound
  | WebCodecsUnsupported
  | BackendFailed
  | WebGLUnavailable
  | ZipFailed

datatype glcall =
    ClearColor jsnum jsnum jsnum jsnum
  | Clear
  | DrawSkeleton

record trackEntry =
  trackTime :: rat
  animDuration :: rat
  looping :: bool

record spineFiles =
  skeletonFile :: "string option"
  atlasFile :: "string option"
  imageFiles :: "string list"

record spineRenderer =
  canvasWidth :: rat
  canvasHeight :: rat
  urls :: "string list"
  skeleton :: "(string \<times> rat) list option"
  track :: "trackEntry option"
  bounds :: bool
  globalBounds :: bool
  bgColor :: "jsnum \<times> jsnum \<times> jsnum \<times> jsnum"
  isPlaying :: bool
  timeScale :: rat
  isRunning :: bool
  targetFPS :: rat
  currentTime :: jsnum
  totalTime :: rat
  gl :: "glcall list"

text \<open>The constructor, on a canvas of the given size.\<close>

definition newSpineRenderer :: "rat \<Rightarrow> rat \<Rightarrow> spineRenderer" where
  "newSpineRenderer w h =
     \<lparr> canvasWidth = w, canvasHeight = h, urls = [], skeleton = None, track = None,
       bounds = False, globalBounds = False, bgColor = (Num 0, Num 1, Num 0, Num 1),
       isPlaying = True, timeScale = 1, isRunning = False, targetFPS = 60,
       currentTime = Num 0, totalTime = 0, gl = [] \<rparr>"

definition createAssetUrls :: "spineFiles \<Rightarrow> string list" where
  "createAssetUrls f =
     (case skeletonFile f of None \<Rightarrow> [] | Some n \<Rightarrow> [n]) @
     (case atlasFile f of None \<Rightarrow> [] | Some n \<Rightarrow> [n]) @ imageFiles f"

definition computeGlobalBounds :: "spineRenderer \<Rightarrow> spineRenderer" where
  "computeGlobalBounds r =
     (case skeleton r of
        None \<Rightarrow> r
      | Some animations \<Rightarrow>
          if animations = [] then r else r\<lparr>globalBounds := True, bounds := True\<rparr>)"

text \<open>
  \<open>load\<close>.  What fetching and parsing the bundle gives is the runtime's business and is
  the parameter \<open>parsed\<close>: an error, after which the fields stay cleared, or the
  animations of the skeleton data.
\<close>

definition load ::
  "(error + (string \<times> rat) list) \<Rightarrow> spineFiles \<Rightarrow> spineRenderer \<Rightarrow>
     spineRenderer \<times> (error + string list)" where
  "load parsed f r =
     (let r1 = r\<lparr>skeleton := None, track := None, bounds := False, globalBounds := False,
                 urls := []\<rparr>
      in if skeletonFile f = None \<or> atlasFile f = None then (r1, Inl MissingFiles)
         else
           let r2 = r1\<lparr>urls := createAssetUrls f\<rparr>
           in case parsed of
                Inl e \<Rightarrow> (r2, Inl e)
              | Inr animations \<Rightarrow>
                  (computeGlobalBounds (r2\<lparr>skeleton := Some animations\<rparr>),
                   Inr (map fst animations)))"

text \<open>
  \<open>setAnimation\<close>: the runtime's \<open>state.setAnimation\<close> throws for an unknown name, and
  the \<open>catch\<close> only logs.  \<open>updateAnimationBounds\<close> sets \<open>bounds\<close> for a known name.
\<close>

definition setAnimation :: "string \<Rightarrow> bool \<Rightarrow> spineRenderer \<Rightarrow> spineRenderer" where
  "setAnimation animName loop r =
     (case skeleton r of
        None \<Rightarrow> r
      | Some animations \<Rightarrow>
          (case map_of animations animName of
             None \<Rightarrow> r
           | Some d \<Rightarrow>
               r\<lparr>track := Some \<lparr>trackTime = 0, animDuration = d, looping = loop\<rparr>,
                 totalTime := d, currentTime := Num 0, bounds := True\<rparr>))"

definition resetAnimation :: "spineRenderer \<Rightarrow> spineRenderer" where
  "resetAnimation r =
     (case skeleton r of
        None \<Rightarrow> r
      | Some _ \<Rightarrow>
          (case track r of
             None \<Rightarrow> r
           | Some tr \<Rightarrow> r\<lparr>track := Some (tr\<lparr>trackTime := 0\<rparr>), currentTime := Num 0\<rparr>))"

definition resize :: "rat \<Rightarrow> rat \<Rightarrow> spineRenderer \<Rightarrow> spineRenderer" where
  "resize w h r = r\<lparr>canvasWidth := w, canvasHeight := h\<rparr>"

definition setBackgroundColor :: "string \<Rightarrow> spineRenderer \<Rightarrow> spineRenderer" where
  "setBackgroundColor hex r =
     (if hex = ''transparent'' then r\<lparr>bgColor := (Num 0, Num 0, Num 0, Num 0)\<rparr>
      else
        let cr = js_div (parseInt16 (slice 1 3 hex)) 255;
            cg = js_div (parseInt16 (slice 3 5 hex)) 255;
            cb = js_div (parseInt16 (slice 5 7 hex)) 255;
            ca = (if length hex = 9 then js_div (parseInt16 (slice 7 9 hex)) 255 else Num 1)
        in r\<lparr>bgColor := (cr, cg, cb, ca)\<rparr>)"

definition setPaused :: "bool \<Rightarrow> spineRenderer \<Rightarrow> spineRenderer" where
  "setPaused paused r = r\<lparr>isPlaying := \<not> paused\<rparr>"

definition setTargetFPS :: "rat \<Rightarrow> spineRenderer \<Rightarrow> spineRenderer" where
  "setTargetFPS f r = r\<lparr>targetFPS := f\<rparr>"

definition stop :: "spineRenderer \<Rightarrow> spineRenderer" where
  "stop r = r\<lparr>isRunning := False\<rparr>"

definition dispose :: "spineRenderer \<Rightarrow> spineRenderer" where
  "dispose r = (stop r)\<lparr>urls := []\<rparr>"

text \<open>
  The runtime's \<open>state.update(dt)\<close> adds \<open>dt\<close> to the time of the current track: the
  simulated time of the export.
\<close>

definition stateUpdate :: "rat \<Rightarrow> spineRenderer \<Rightarrow> spineRenderer" where
  "stateUpdate dt r =
     r\<lparr>track := map_option (\<lambda>tr. tr\<lparr>trackTime := trackTime tr + dt\<rparr>) (track r)\<rparr>"

definition simTime :: "spineRenderer \<Rightarrow> rat option" where
  "simTime r = map_option trackTime (track r)"

definition updateAndRender :: "rat \<Rightarrow> spineRenderer \<Rightarrow> spineRenderer" where
  "updateAndRender delta r =
     (let r1 = (case bgColor r of
                  (cr, cg, cb, ca) \<Rightarrow> r\<lparr>gl := gl r @ [ClearColor cr cg cb ca, Clear]\<rparr>)
      in if skeleton r1 \<noteq> None \<and> bounds r1 then
           let r2 = (if isPlaying r1 then stateUpdate (delta * timeScale r1) r1 else r1);
               r3 = (case track r2 of
                       None \<Rightarrow> r2
                     | Some tr \<Rightarrow>
                         r2\<lparr>currentTime := js_mod (trackTime tr) (animDuration tr),
                            totalTime := animDuration tr\<rparr>)
           in r3\<lparr>gl := gl r3 @ [DrawSkeleton]\<rparr>
         else r1)"

section \<open>OffscreenRenderer\<close>

datatype exportFormat = PngSequence | JpgSequence | Mp4H264 | Video string

text \<open>
  \<open>OffscreenRenderTask\<close>.  An absent optional field is \<open>None\<close>; \<open>abortSignal\<close> is the
  identity of the \<open>AbortSignal\<close> object.  A \<open>Blob\<close> is opaque and named by a number.
\<close>

record offscreenRenderTask =
  assetName :: string
  animation :: string
  files :: spineFiles
  width :: rat
  height :: rat
  fps :: rat
  format :: exportFormat
  duration :: "rat option"
  backgroundColor :: "string option"
  abortSignal :: "nat option"

type_synonym blob = nat

text \<open>
  The calls a job makes on its renderer and on its capture backend, in order.  The
  backends (\<open>ImageSequenceExporter\<close>, \<open>MP4Recorder\<close>, \<open>CanvasRecorder\<close>) read the
  canvas: \<open>ExporterCapture\<close> and \<open>Mp4EncodeFrame\<close> record the simulated time of the pose
  on the canvas at the call (the last argument); the first argument of \<open>Mp4EncodeFrame\<close>
  is the timestamp the source passes.  \<open>Sleep\<close> is the \<open>setTimeout\<close> pause.
\<close>

datatype call =
    UpdateAndRender rat
  | ExporterStart
  | ExporterCapture "rat option"
  | ExporterStop
  | Mp4Start
  | Mp4EncodeFrame rat "rat option"
  | Mp4Stop
  | RecorderStart
  | Sleep nat
  | RecorderStop
  | RendererStop

record offscreenRenderer =
  renderer :: spineRenderer
  calls :: "call list"

definition newOffscreenRenderer :: offscreenRenderer where
  "newOffscreenRenderer = \<lparr> renderer = newSpineRenderer 1920 1080, calls = [] \<rparr>"

text \<open>
  What a job meets while it runs: the value of \<open>abortSignal.aborted\<close> at each place the
  source reads it, the outcome of loading the bundle, and the outcomes of the backend's
  \<open>start\<close> (its construction included), of its \<open>i\<close>-th \<open>capture\<close> or \<open>encodeFrame\<close>,
  and of its \<open>stop\<close>.
\<close>

datatype checkpoint = AtStart | AfterLoad | AtFrame nat

record jobenv =
  abortObs :: "checkpoint \<Rightarrow> bool"
  loadResult :: "error + (string \<times> rat) list"
  backendStart :: "error option"
  backendCapture :: "nat \<Rightarrow> error option"
  backendStop :: "error + blob"

text \<open>The host: whether a WebGL renderer can be constructed, and \<open>isWebCodecsSupported()\<close>.\<close>

record host =
  webgl :: bool
  webCodecs :: bool

definition aborted :: "jobenv \<Rightarrow> offscreenRenderTask \<Rightarrow> checkpoint \<Rightarrow> bool" where
  "aborted e t cp = (case abortSignal t of None \<Rightarrow> False | Some _ \<Rightarrow> abortObs e cp)"

definition logCall :: "call \<Rightarrow> offscreenRenderer \<Rightarrow> offscreenRenderer" where
  "logCall c s = s\<lparr>calls := calls s @ [c]\<rparr>"

text \<open>The block that sets the render parameters and the background colour.\<close>

definition applyRenderParams :: "offscreenRenderTask \<Rightarrow> spineRenderer \<Rightarrow> spineRenderer" where
  "applyRenderParams t r =
     (let r1 = resize (width t) (height t) r;
          r2 = setAnimation (animation t) False r1;
          r3 = setPaused False r2;
          r4 = setTargetFPS (fps t) r3;
          r5 = resetAnimation r4
      in case backgroundColor t of
           None \<Rightarrow> r5
         | Some c \<Rightarrow> if c = [] then r5 else setBackgroundColor c r5)"

text \<open>\<open>animDuration\<close>, \<open>recordDuration\<close> and \<open>totalFrames\<close> of \<open>renderToVideo\<close>.\<close>

definition animDurationOf :: "spineRenderer \<Rightarrow> rat" where
  "animDurationOf r = (if totalTime r = 0 then 2 else totalTime r)"

definition recordDurationOf :: "offscreenRenderTask \<Rightarrow> spineRenderer \<Rightarrow> rat" where
  "recordDurationOf t r =
     (case duration t of
        None \<Rightarrow> animDurationOf r
      | Some d \<Rightarrow> if d \<noteq> 0 \<and> d > 0 then d else animDurationOf r)"

definition totalFramesOf :: "offscreenRenderTask \<Rightarrow> spineRenderer \<Rightarrow> int" where
  "totalFramesOf t r = \<lceil>recordDurationOf t r * fps t\<rceil>"

definition renderFrame :: "rat \<Rightarrow> offscreenRenderer \<Rightarrow> offscreenRenderer" where
  "renderFrame delta s =
     logCall (UpdateAndRender delta) (s\<lparr>renderer := updateAndRender delta (renderer s)\<rparr>)"

text \<open>What each of the three loops awaits after \<open>updateAndRender\<close>.\<close>

definition captureImage ::
  "jobenv \<Rightarrow> nat \<Rightarrow> offscreenRenderer \<Rightarrow> offscreenRenderer \<times> error option" where
  "captureImage e i s = (logCall (ExporterCapture (simTime (renderer s))) s, backendCapture e i)"

definition encodeFrame ::
  "jobenv \<Rightarrow> rat \<Rightarrow> nat \<Rightarrow> offscreenRenderer \<Rightarrow> offscreenRenderer \<times> error option" where
  "encodeFrame e f i s =
     (logCall (Mp4EncodeFrame (of_nat i * 1000000 / f) (simTime (renderer s))) s,
      backendCapture e i)"

definition pause :: "nat \<Rightarrow> offscreenRenderer \<Rightarrow> offscreenRenderer \<times> error option" where
  "pause i s = (logCall (Sleep 10) s, None)"

text \<open>
  \<open>for (let i = 0; i < totalFrames; i++)\<close>, from index \<open>i\<close> on: the check of the signal,
  \<open>updateAndRender(frameDelta)\<close>, then the awaited step.  \<open>Some\<close> is the error thrown.
\<close>

function frameLoop ::
  "jobenv \<Rightarrow> offscreenRenderTask \<Rightarrow>
   (nat \<Rightarrow> offscreenRenderer \<Rightarrow> offscreenRenderer \<times> error option) \<Rightarrow>
   rat \<Rightarrow> int \<Rightarrow> nat \<Rightarrow> offscreenRenderer \<Rightarrow> offscreenRenderer \<times> error option" where
  "frameLoop e t capture frameDelta totalFrames i s =
     (if int i < totalFrames then
        if aborted e t (AtFrame i) then (s, Some AbortError)
        else
          (case capture i (renderFrame frameDelta s) of
             (s', Some err) \<Rightarrow> (s', Some err)
           | (s', None) \<Rightarrow> frameLoop e t capture frameDelta totalFrames (i + 1) s')
      else (s, None))"
  by pat_completeness auto
termination
  by (relation "measure (\<lambda>(e, t, capture, frameDelta, totalFrames, i, s). nat (totalFrames - int i))")
     auto

text \<open>A backend from its \<open>start\<close> to its \<open>stop\<close>: the shape the three branches share.\<close>

definition runBackend ::
  "jobenv \<Rightarrow> offscreenRenderTask \<Rightarrow> call \<Rightarrow>
   (nat \<Rightarrow> offscreenRenderer \<Rightarrow> offscreenRenderer \<times> error option) \<Rightarrow> call \<Rightarrow>
   rat \<Rightarrow> int \<Rightarrow> offscreenRenderer \<Rightarrow> offscreenRenderer \<times> (error + blob)" where
  "runBackend e t startCall capture stopCall frameDelta totalFrames s =
     (let s1 = logCall startCall s
      in case backendStart e of
           Some err \<Rightarrow> (s1, Inl err)
         | None \<Rightarrow>
             (case frameLoop e t capture frameDelta totalFrames 0 s1 of
                (s2, Some err) \<Rightarrow> (s2, Inl err)
              | (s2, None) \<Rightarrow> (logCall stopCall s2, backendStop e)))"

text \<open>
  The \<open>try\<close> block of \<open>renderToVideo\<close>, up to the backend's \<open>stop\<close>.  For \<open>fps = 0\<close>
  the source's \<open>1 / fps\<close> is \<open>Infinity\<close> where \<open>1 / 0 = 0\<close> here; \<open>totalFrames\<close> is then
  \<open>0\<close>, no iteration runs and \<open>frameDelta\<close> is never read.
\<close>

definition tryBlock ::
  "host \<Rightarrow> jobenv \<Rightarrow> offscreenRenderTask \<Rightarrow> offscreenRenderer \<Rightarrow>
     offscreenRenderer \<times> (error + blob)" where
  "tryBlock h e t s0 =
     (case load (loadResult e) (files t) (renderer s0) of
        (r1, Inl err) \<Rightarrow> (s0\<lparr>renderer := r1\<rparr>, Inl err)
      | (r1, Inr animations) \<Rightarrow>
          if animation t \<notin> set animations then (s0\<lparr>renderer := r1\<rparr>, Inl AnimationNotFound)
          else if aborted e t AfterLoad then (s0\<lparr>renderer := r1\<rparr>, Inl AbortError)
          else
            let s2 = s0\<lparr>renderer := applyRenderParams t r1\<rparr>;
                totalFrames = totalFramesOf t (renderer s2);
                frameDelta = 1 / fps t
            in if format t = PngSequence \<or> format t = JpgSequence then
                 runBackend e t ExporterStart (captureImage e) ExporterStop
                   frameDelta totalFrames s2
               else if format t = Mp4H264 then
                 if \<not> webCodecs h then (s2, Inl WebCodecsUnsupported)
                 else
                   runBackend e t Mp4Start (encodeFrame e (fps t)) Mp4Stop
                     frameDelta totalFrames s2
               else
                 runBackend e t RecorderStart pause RecorderStop frameDelta totalFrames s2)"

text \<open>
  \<open>renderToVideo\<close>: the first check of the signal is outside the \<open>try\<close>; the end of the
  \<open>try\<close> block and the \<open>catch\<close> both call \<open>renderer.stop()\<close>.
\<close>

definition renderToVideo ::
  "host \<Rightarrow> jobenv \<Rightarrow> offscreenRenderTask \<Rightarrow> offscreenRenderer \<Rightarrow>
     offscreenRenderer \<times> (error + blob)" where
  "renderToVideo h e t s =
     (if aborted e t AtStart then (s, Inl AbortError)
      else
        case tryBlock h e t s of
          (s', res) \<Rightarrow> (logCall RendererStop (s'\<lparr>renderer := stop (renderer s')\<rparr>), res))"

section \<open>ExportManager\<close>

text \<open>
  A queue entry pairs the task with the \<open>resolve\<close>/\<open>reject\<close> callbacks of the
  promise \<open>exportTask\<close> returned; \<open>promise\<close> is the identity of that promise.
\<close>

record queueItem =
  task :: offscreenRenderTask
  promise :: nat

datatype settlement = Resolved blob | Rejected error

datatype itemStatus = Waiting | Exporting | Completed | Failed

datatype label = Preparing | TaskName string string | Packing

text \<open>
  What an observer of a run sees, in order: a renderer constructed for the job of a
  promise (or the constructor throwing), the calls a job made, a promise settled, a
  renderer disposed, and the callbacks and archive operations of the batch export.
\<close>

datatype event =
    Constructed nat nat
  | ConstructFailed nat
  | JobCall nat call
  | Settled nat settlement
  | Disposed nat
  | Progress nat nat label
  | Status string itemStatus
  | ZipFile string blob
  | Download "(string \<times> blob) list"

text \<open>
  The three fields of the class, and the surroundings of the instance:
  \<open>activeRenderers\<close> is the \<open>Set\<close> in insertion order, its members the identities of
  the renderers; \<open>running\<close> holds the calls of \<open>processQueue\<close> suspended at
  \<open>await renderer.renderToVideo\<close>; \<open>abortedSignals\<close> the signals whose \<open>aborted\<close> is
  true; \<open>trace\<close> the events so far.
\<close>

record exportManager =
  maxConcurrent :: nat
  activeRenderers :: "nat list"
  queue :: "queueItem list"
  running :: "(nat \<times> queueItem) list"
  abortedSignals :: "nat set"
  nextRenderer :: nat
  nextPromise :: nat
  trace :: "event list"

definition newExportManager :: exportManager where
  "newExportManager =
     \<lparr> maxConcurrent = 2, activeRenderers = [], queue = [], running = [],
       abortedSignals = {}, nextRenderer = 0, nextPromise = 0, trace = [] \<rparr>"

definition emit :: "event \<Rightarrow> exportManager \<Rightarrow> exportManager" where
  "emit ev m = m\<lparr>trace := trace m @ [ev]\<rparr>"

text \<open>\<open>signal?.aborted\<close>, read now.\<close>

definition signalAborted :: "exportManager \<Rightarrow> nat option \<Rightarrow> bool" where
  "signalAborted m sg = (case sg of None \<Rightarrow> False | Some x \<Rightarrow> x \<in> abortedSignals m)"

definition setAdd :: "nat \<Rightarrow> nat list \<Rightarrow> nat list" where
  "setAdd x xs = (if x \<in> set xs then xs else xs @ [x])"

text \<open>
  \<open>processQueue\<close> up to its \<open>await\<close>.  When the constructor throws, the entry has left
  the queue and its promise is never settled.
\<close>

function processQueue :: "host \<Rightarrow> exportManager \<Rightarrow> exportManager" where
  "processQueue h m =
     (if length (activeRenderers m) \<ge> maxConcurrent m then m
      else
        case queue m of
          [] \<Rightarrow> m
        | item # rest \<Rightarrow>
            let m1 = m\<lparr>queue := rest\<rparr>
            in if signalAborted m1 (abortSignal (task item)) then
                 processQueue h (emit (Settled (promise item) (Rejected AbortError)) m1)
               else if \<not> webgl h then emit (ConstructFailed (promise item)) m1
               else
                 let rid = nextRenderer m1
                 in emit (Constructed rid (promise item))
                      (m1\<lparr>nextRenderer := rid + 1,
                          activeRenderers := setAdd rid (activeRenderers m1),
                          running := running m1 @ [(rid, item)]\<rparr>))"
  by pat_completeness auto
termination
  by (relation "measure (\<lambda>(h, m). length (queue m))") (auto simp: emit_def)

text \<open>
  The rest of \<open>processQueue\<close>, once \<open>renderToVideo\<close> of the renderer \<open>rid\<close> has
  settled in the surroundings \<open>e\<close>: \<open>resolve\<close> or \<open>reject\<close>, then the \<open>finally\<close>
  block.  What the job observed of its signal is part of \<open>e\<close> and is not derived from
  \<open>abortedSignals\<close>: a statement that needs the two to agree says so.
\<close>

definition settlementOf :: "error + blob \<Rightarrow> settlement" where
  "settlementOf res = (case res of Inl err \<Rightarrow> Rejected err | Inr b \<Rightarrow> Resolved b)"

definition afterRender :: "host \<Rightarrow> nat \<Rightarrow> jobenv \<Rightarrow> exportManager \<Rightarrow> exportManager" where
  "afterRender h rid e m =
     (case map_of (running m) rid of
        None \<Rightarrow> m
      | Some item \<Rightarrow>
          (case renderToVideo h e (task item) newOffscreenRenderer of
             (s, res) \<Rightarrow>
               let m1 = m\<lparr>running := filter (\<lambda>(r, _). r \<noteq> rid) (running m),
                          trace := trace m @ map (JobCall rid) (calls s)\<rparr>;
                   m2 = emit (Settled (promise item) (settlementOf res)) m1;
                   m3 = emit (Disposed rid) m2;
                   m4 = m3\<lparr>activeRenderers := removeAll rid (activeRenderers m3)\<rparr>
               in processQueue h m4))"

definition exportTask :: "host \<Rightarrow> offscreenRenderTask \<Rightarrow> exportManager \<Rightarrow> exportManager" where
  "exportTask h t m =
     processQueue h
       (m\<lparr>nextPromise := nextPromise m + 1,
          queue := queue m @ [\<lparr>task = t, promise = nextPromise m\<rparr>]\<rparr>)"

definition cancelAll :: "exportManager \<Rightarrow> exportManager" where
  "cancelAll m =
     (let m1 = m\<lparr>trace := trace m @
                   map (\<lambda>item. Settled (promise item) (Rejected AbortError)) (queue m)\<rparr>;
          m2 = m1\<lparr>queue := []\<rparr>;
          m3 = m2\<lparr>trace := trace m2 @ map Disposed (activeRenderers m2)\<rparr>
      in m3\<lparr>activeRenderers := []\<rparr>)"

definition getQueueLength :: "exportManager \<Rightarrow> nat" where
  "getQueueLength m = length (queue m) + length (activeRenderers m)"

text \<open>The owner of a signal calls \<open>abort()\<close>.\<close>

definition abortSignalNow :: "nat \<Rightarrow> exportManager \<Rightarrow> exportManager" where
  "abortSignalNow sg m = m\<lparr>abortedSignals := insert sg (abortedSignals m)\<rparr>"

text \<open>What can happen to a manager, and a history of it from a new instance.\<close>

datatype action =
    Submit offscreenRenderTask
  | Finish nat jobenv
  | CancelAll
  | Abort nat

fun perform :: "host \<Rightarrow> action \<Rightarrow> exportManager \<Rightarrow> exportManager" where
  "perform h (Submit t) m = exportTask h t m"
| "perform h (Finish rid e) m = afterRender h rid e m"
| "perform h CancelAll m = cancelAll m"
| "perform h (Abort sg) m = abortSignalNow sg m"

definition history :: "host \<Rightarrow> action list \<Rightarrow> exportManager \<Rightarrow> exportManager" where
  "history h acts m = foldl (\<lambda>m a. perform h a m) m acts"

section \<open>Batch export\<close>

text \<open>
  \<open>AnimationItem\<close> and \<open>ExportConfig\<close>, as far as \<open>processExportWithOffscreen\<close> reads
  them.
\<close>

record animationItem =
  itemId :: string
  itemName :: string
  itemFiles :: spineFiles

record exportConfig =
  cfgWidth :: rat
  cfgHeight :: rat
  cfgFps :: rat
  cfgFormat :: exportFormat
  cfgDuration :: "rat option"
  cfgBackgroundColor :: "string option"

text \<open>
  The surroundings of one batch: what loading the \<open>k\<close>-th selected item gives during
  the scan, whether the user aborts while it loads, what happens after the submission
  (a job settles, or the user aborts), and whether \<open>generateAsync\<close> fails.
\<close>

datatype step = JobDone nat jobenv | UserAbort

record batchEnv =
  scanResult :: "nat \<Rightarrow> error + (string \<times> rat) list"
  abortDuringScan :: "nat \<Rightarrow> bool"
  steps :: "step list"
  zipResult :: "error option"

text \<open>
  The state of a run: the manager with the trace, the counter \<open>completed\<close>, the entries
  of \<open>zip\<close>, and the closures of \<open>tasks.map\<close> suspended at \<open>await exportTask\<close>, each
  with the promise it waits for.
\<close>

record batch =
  manager :: exportManager
  completed :: nat
  zip :: "(string \<times> blob) list"
  closures :: "(nat \<times> animationItem \<times> string) list"

datatype outcome = Returned nat | Threw error | Pending

definition markAll :: "itemStatus \<Rightarrow> animationItem list \<Rightarrow> exportManager \<Rightarrow> exportManager" where
  "markAll st items m = foldl (\<lambda>m item. emit (Status (itemId item) st) m) m items"

definition userAbort :: "nat option \<Rightarrow> exportManager \<Rightarrow> exportManager" where
  "userAbort sg m = (case sg of None \<Rightarrow> m | Some s \<Rightarrow> abortSignalNow s m)"

definition makeTask ::
  "exportConfig \<Rightarrow> nat option \<Rightarrow> animationItem \<Rightarrow> string \<Rightarrow> offscreenRenderTask" where
  "makeTask cfg sg item anim =
     \<lparr> assetName = itemName item, animation = anim, files = itemFiles item,
       width = cfgWidth cfg, height = cfgHeight cfg, fps = cfgFps cfg, format = cfgFormat cfg,
       duration = cfgDuration cfg, backgroundColor = cfgBackgroundColor cfg,
       abortSignal = sg \<rparr>"

text \<open>The scan loop, from the \<open>k\<close>-th selected item on, with the temporary renderer.\<close>

fun scanItems ::
  "batchEnv \<Rightarrow> exportConfig \<Rightarrow> nat option \<Rightarrow> nat \<Rightarrow> animationItem list \<Rightarrow>
   spineRenderer \<Rightarrow> exportManager \<Rightarrow>
   (animationItem \<times> string \<times> offscreenRenderTask) list \<Rightarrow>
   exportManager \<times> (animationItem \<times> string \<times> offscreenRenderTask) list" where
  "scanItems env cfg sg k [] r m tasks = (m, tasks)"
| "scanItems env cfg sg k (item # items) r m tasks =
     (if signalAborted m sg then (m, tasks)
      else
        case load (scanResult env k) (itemFiles item) r of
          (r', res) \<Rightarrow>
            let m' = (if abortDuringScan env k then userAbort sg m else m)
            in case res of
                 Inr animations \<Rightarrow>
                   scanItems env cfg sg (k + 1) items r' m'
                     (tasks @ map (\<lambda>anim. (item, anim, makeTask cfg sg item anim)) animations)
               | Inl err \<Rightarrow>
                   scanItems env cfg sg (k + 1) items r'
                     (emit (Status (itemId item) Failed) m') tasks)"

text \<open>
  \<open>tasks.map(async ...)\<close> runs each closure up to its \<open>await\<close>, one after the other,
  with no other code in between: \<open>completed\<close> keeps its value.
\<close>

fun submitAll ::
  "host \<Rightarrow> nat option \<Rightarrow> nat \<Rightarrow> (animationItem \<times> string \<times> offscreenRenderTask) list \<Rightarrow>
   batch \<Rightarrow> batch" where
  "submitAll h sg totalTasks [] b = b"
| "submitAll h sg totalTasks ((item, anim, t) # rest) b =
     (if signalAborted (manager b) sg then submitAll h sg totalTasks rest b
      else
        let m1 = emit (Progress (completed b + 1) totalTasks (TaskName (itemName item) anim))
                   (manager b);
            m2 = emit (Status (itemId item) Exporting) m1;
            p = nextPromise m2;
            m3 = exportTask h t m2
        in submitAll h sg totalTasks rest
             (b\<lparr>manager := m3, closures := closures b @ [(p, item, anim)]\<rparr>))"

definition extension :: "exportFormat \<Rightarrow> string" where
  "extension f =
     (case f of
        PngSequence \<Rightarrow> ''zip''
      | JpgSequence \<Rightarrow> ''zip''
      | Mp4H264 \<Rightarrow> ''mp4''
      | Video v \<Rightarrow> if take 4 v = ''webm'' then ''webm'' else ''mp4'')"

text \<open>\<open>zip.file(name, data)\<close>: an entry of the same name is replaced.\<close>

definition zipFile :: "string \<Rightarrow> blob \<Rightarrow> (string \<times> blob) list \<Rightarrow> (string \<times> blob) list" where
  "zipFile name data z = filter (\<lambda>(n, _). n \<noteq> name) z @ [(name, data)]"

text \<open>The rest of a closure, once its promise has settled.\<close>

definition resume ::
  "exportConfig \<Rightarrow> nat option \<Rightarrow> nat \<Rightarrow> animationItem \<Rightarrow> string \<Rightarrow> settlement \<Rightarrow>
   batch \<Rightarrow> batch" where
  "resume cfg sg totalTasks item anim st b =
     (case st of
        Resolved data \<Rightarrow>
          if signalAborted (manager b) sg then b
          else
            let filename = itemName item @ ''_'' @ anim @ ''.'' @ extension (cfgFormat cfg);
                b1 = b\<lparr>zip := zipFile filename data (zip b),
                       manager := emit (ZipFile filename data) (manager b)\<rparr>;
                b2 = b1\<lparr>completed := completed b1 + 1\<rparr>
            in b2\<lparr>manager := emit (Progress (completed b2) totalTasks
                                       (TaskName (itemName item) anim)) (manager b2)\<rparr>
      | Rejected err \<Rightarrow>
          b\<lparr>manager := emit (Status (itemId item) Failed) (manager b)\<rparr>)"

text \<open>The closures whose promises the events \<open>evs\<close> settle resume, in that order.\<close>

fun resumeClosures ::
  "exportConfig \<Rightarrow> nat option \<Rightarrow> nat \<Rightarrow> event list \<Rightarrow> batch \<Rightarrow> batch" where
  "resumeClosures cfg sg totalTasks [] b = b"
| "resumeClosures cfg sg totalTasks (Settled p st # evs) b =
     (case map_of (closures b) p of
        None \<Rightarrow> resumeClosures cfg sg totalTasks evs b
      | Some (item, anim) \<Rightarrow>
          resumeClosures cfg sg totalTasks evs
            (resume cfg sg totalTasks item anim st
               (b\<lparr>closures := filter (\<lambda>(q, _). q \<noteq> p) (closures b)\<rparr>)))"
| "resumeClosures cfg sg totalTasks (ev # evs) b = resumeClosures cfg sg totalTasks evs b"

text \<open>
  What happens while \<open>Promise.all\<close> waits; it resolves as soon as no closure is
  suspended, and later steps are not part of the run.
\<close>

fun runSteps ::
  "host \<Rightarrow> exportConfig \<Rightarrow> nat option \<Rightarrow> nat \<Rightarrow> step list \<Rightarrow> batch \<Rightarrow> batch" where
  "runSteps h cfg sg totalTasks [] b = b"
| "runSteps h cfg sg totalTasks (st # rest) b =
     (if closures b = [] then b
      else
        case st of
          UserAbort \<Rightarrow> runSteps h cfg sg totalTasks rest (b\<lparr>manager := userAbort sg (manager b)\<rparr>)
        | JobDone rid e \<Rightarrow>
            let m' = afterRender h rid e (manager b);
                new = drop (length (trace (manager b))) (trace m')
            in runSteps h cfg sg totalTasks rest
                 (resumeClosures cfg sg totalTasks new (b\<lparr>manager := m'\<rparr>)))"

text \<open>
  From \<open>onProgress(0, totalTasks, ...)\<close> to the return of \<open>tasks.map\<close>; a closure whose
  promise settled meanwhile resumes once the synchronous code has ended.
\<close>

definition submitPhase ::
  "host \<Rightarrow> exportConfig \<Rightarrow> nat option \<Rightarrow>
   (animationItem \<times> string \<times> offscreenRenderTask) list \<Rightarrow> exportManager \<Rightarrow> batch" where
  "submitPhase h cfg sg tasks m =
     (let m' = emit (Progress 0 (length tasks) Preparing) m;
          b1 = submitAll h sg (length tasks) tasks
                 \<lparr> manager = m', completed = 0, zip = [], closures = [] \<rparr>
      in resumeClosures cfg sg (length tasks)
           (drop (length (trace m')) (trace (manager b1))) b1)"

text \<open>After \<open>await Promise.all(exportPromises)\<close>; \<open>Pending\<close> when it has not resolved.\<close>

definition finishExport ::
  "batchEnv \<Rightarrow> animationItem list \<Rightarrow> nat option \<Rightarrow> nat \<Rightarrow> batch \<Rightarrow> outcome \<times> event list" where
  "finishExport env items sg totalTasks b =
     (if closures b \<noteq> [] then (Pending, trace (manager b))
      else if signalAborted (manager b) sg then (Returned (completed b), trace (manager b))
      else if completed b > 0 then
        let m1 = emit (Progress (completed b) totalTasks Packing) (manager b)
        in case zipResult env of
             Some err \<Rightarrow> (Threw err, trace (markAll Failed items m1))
           | None \<Rightarrow>
               (Returned (completed b),
                trace (markAll Completed items (emit (Download (zip b)) m1)))
      else (Returned (completed b), trace (markAll Completed items (manager b))))"

text \<open>
  \<open>processExportWithOffscreen\<close>; \<open>ab0\<close> are the signals already aborted at the call.
  The temporary canvas has the default size.
\<close>

definition processExportWithOffscreen ::
  "host \<Rightarrow> batchEnv \<Rightarrow> animationItem list \<Rightarrow> exportConfig \<Rightarrow> nat option \<Rightarrow> nat set \<Rightarrow>
   outcome \<times> event list" where
  "processExportWithOffscreen h env items cfg sg ab0 =
     (let m0 = markAll Waiting items (newExportManager\<lparr>abortedSignals := ab0\<rparr>)
      in if \<not> webgl h then (Threw WebGLUnavailable, trace (markAll Failed items m0))
         else
           case scanItems env cfg sg 0 items (newSpineRenderer 300 150) m0 [] of
             (m1, tasks) \<Rightarrow>
               if tasks = [] then (Returned 0, trace m1)
               else
                 finishExport env items sg (length tasks)
                   (runSteps h cfg sg (length tasks) (steps env)
                      (submitPhase h cfg sg tasks m1)))"

text \<open>The status an item shows: the last one reported for it.\<close>

fun lastStatus :: "event list \<Rightarrow> string \<Rightarrow> itemStatus option" where
  "lastStatus [] i = None"
| "lastStatus (ev # evs) i =
     (case lastStatus evs i of
        Some st \<Rightarrow> Some st
      | None \<Rightarrow> (case ev of Status j st \<Rightarrow> if j = i then Some st else None | _ \<Rightarrow> None))"

section \<open>Notions of the statements\<close>

subsection \<open>Jobs\<close>

text \<open>
  The duration and the number of frames of a job, as functions of the explicit duration
  of the task and of the intrinsic duration \<open>d\<close> of its animation.
\<close>

definition resolvedDuration :: "rat option \<Rightarrow> rat \<Rightarrow> rat" where
  "resolvedDuration explicit intrinsic =
     (case explicit of
        Some d \<Rightarrow> if d > 0 then d else if intrinsic = 0 then 2 else intrinsic
      | None \<Rightarrow> if intrinsic = 0 then 2 else intrinsic)"



definition stopCallOf :: "exportFormat \<Rightarrow> call" where
  "stopCallOf f =
     (case f of PngSequence \<Rightarrow> ExporterStop | JpgSequence \<Rightarrow> ExporterStop
      | Mp4H264 \<Rightarrow> Mp4Stop | Video v \<Rightarrow> RecorderStop)"

definition frameCall :: "exportFormat \<Rightarrow> rat \<Rightarrow> nat \<Rightarrow> call" where
  "frameCall f fp i =
     (case f of
        PngSequence \<Rightarrow> ExporterCapture (Some (of_nat (i + 1) / fp))
      | JpgSequence \<Rightarrow> ExporterCapture (Some (of_nat (i + 1) / fp))
      | Mp4H264 \<Rightarrow> Mp4EncodeFrame (of_nat i * 1000000 / fp) (Some (of_nat (i + 1) / fp))
      | Video v \<Rightarrow> Sleep 10)"







text \<open>A colour component is \<open>NaN\<close>.\<close>

definition hasNaN :: "jsnum \<times> jsnum \<times> jsnum \<times> jsnum \<Rightarrow> bool" where
  "hasNaN c = (case c of (cr, cg, cb, ca) \<Rightarrow> cr = NaN \<or> cg = NaN \<or> cb = NaN \<or> ca = NaN)"

text \<open>Positions 1 to 6 of the string hold three pairs of hexadecimal digits.\<close>

definition hexPairs :: "string \<Rightarrow> bool" where
  "hexPairs s = (length s \<ge> 7 \<and> list_all isHexDigit (slice 1 7 s))"

text \<open>
  A slice of at most two characters from which \<open>parseInt (_, 16)\<close> reads a number: a
  hexadecimal digit first, unless the slice is \<open>0x\<close> or \<open>0X\<close>, or one white-space or
  sign character and then a hexadecimal digit.
\<close>

definition parsesAsHex :: "string \<Rightarrow> bool" where
  "parsesAsHex s =
     (case s of
        [] \<Rightarrow> False
      | [c] \<Rightarrow> isHexDigit c
      | c # d # _ \<Rightarrow>
          (isHexDigit c \<and> \<not> (c = CHR ''0'' \<and> (d = CHR ''x'' \<or> d = CHR ''X''))) \<or>
          ((isWhiteSpace c \<or> c = CHR ''+'' \<or> c = CHR ''-'') \<and> isHexDigit d))"

text \<open>The \<open>clearColor\<close> commands of a command stream, and successive frames.\<close>

definition clearColors :: "glcall list \<Rightarrow> glcall list" where
  "clearColors cs = filter (\<lambda>c. case c of ClearColor cr cg cb ca \<Rightarrow> True | _ \<Rightarrow> False) cs"

definition renderFrames :: "rat list \<Rightarrow> spineRenderer \<Rightarrow> spineRenderer" where
  "renderFrames dts r = foldl (\<lambda>r dt. updateAndRender dt r) r dts"

subsection \<open>The scheduler\<close>

text \<open>
  Identities are fresh: the renderers of the active set are distinct and older than
  \<open>nextRenderer\<close>, the promises of the queued and of the running entries are distinct
  and older than \<open>nextPromise\<close>.
\<close>

definition wellFormed :: "exportManager \<Rightarrow> bool" where
  "wellFormed m \<longleftrightarrow>
     distinct (activeRenderers m) \<and>
     (\<forall>r \<in> set (activeRenderers m). r < nextRenderer m) \<and>
     distinct (map promise (queue m) @ map (\<lambda>(r, item). promise item) (running m)) \<and>
     (\<forall>item \<in> set (queue m). promise item < nextPromise m) \<and>
     (\<forall>(r, item) \<in> set (running m). promise item < nextPromise m)"

text \<open>An entry waits only while the active set is full.\<close>

definition saturated :: "exportManager \<Rightarrow> bool" where
  "saturated m \<longleftrightarrow> (queue m \<noteq> [] \<longrightarrow> maxConcurrent m \<le> length (activeRenderers m))"

text \<open>The queue entries of tasks submitted in this order, the first with promise \<open>p\<close>.\<close>

definition entries :: "nat \<Rightarrow> offscreenRenderTask list \<Rightarrow> queueItem list" where
  "entries p ts = map (\<lambda>(i, t). \<lparr>task = t, promise = i\<rparr>) (enumerate p ts)"

definition afterSubmits :: "nat set \<Rightarrow> offscreenRenderTask list \<Rightarrow> exportManager" where
  "afterSubmits A ts =
     \<lparr> maxConcurrent = 2, activeRenderers = [0..<min 2 (length ts)],
       queue = drop 2 (entries 0 ts), running = enumerate 0 (take 2 (entries 0 ts)),
       abortedSignals = A, nextRenderer = min 2 (length ts), nextPromise = length ts,
       trace = map (\<lambda>i. Constructed i i) [0..<min 2 (length ts)] \<rparr>"

definition rejection :: "queueItem \<Rightarrow> event" where
  "rejection item = Settled (promise item) (Rejected AbortError)"

subsection \<open>Concrete inputs\<close>

definition host0 :: host where
  "host0 = \<lparr> webgl = True, webCodecs = True \<rparr>"


definition files0 :: spineFiles where
  "files0 = \<lparr> skeletonFile = Some ''hero.json'', atlasFile = Some ''hero.atlas'',
              imageFiles = [''hero.png''] \<rparr>"

text \<open>A task of two frames: one second at 2 fps; its signal is signal 1.\<close>

definition task0 :: "exportFormat \<Rightarrow> string \<Rightarrow> offscreenRenderTask" where
  "task0 f anim =
     \<lparr> assetName = ''hero'', animation = anim, files = files0, width = 64, height = 64,
       fps = 2, format = f, duration = Some 1, backgroundColor = None, abortSignal = Some 1 \<rparr>"

text \<open>
  The bundle has the animations \<open>walk\<close> (one second) and \<open>pose\<close> (intrinsic duration 0).
  \<open>goodJob\<close> sees no cancellation and no failure; \<open>cancelledJob\<close> sees the signal set
  from the check of iteration 1 on.
\<close>

definition goodJob :: "blob \<Rightarrow> jobenv" where
  "goodJob b =
     \<lparr> abortObs = (\<lambda>cp. False), loadResult = Inr [(''walk'', 1), (''pose'', 0)],
       backendStart = None, backendCapture = (\<lambda>i. None), backendStop = Inr b \<rparr>"


text \<open>
  A manager with a free slot whose queue holds an entry with its signal set, then an
  entry with signal 2, not set.
\<close>

definition cancelledEntry :: queueItem where
  "cancelledEntry = \<lparr> task = task0 PngSequence ''walk'', promise = 0 \<rparr>"

definition liveEntry :: queueItem where
  "liveEntry = \<lparr> task = (task0 PngSequence ''walk'')\<lparr> abortSignal := Some 2 \<rparr>, promise = 1 \<rparr>"

definition manager6 :: exportManager where
  "manager6 = newExportManager\<lparr> queue := [cancelledEntry, liveEntry], abortedSignals := {1},
                                 nextPromise := 2 \<rparr>"

text \<open>Three submissions to a new manager, after an unrelated signal was aborted.\<close>

definition threeTasks :: "offscreenRenderTask list" where
  "threeTasks = [task0 PngSequence ''walk'', task0 Mp4H264 ''walk'', task0 JpgSequence ''pose'']"

definition manager3 :: exportManager where
  "manager3 = history host0 (map Abort [9] @ map Submit threeTasks) newExportManager"

text \<open>
  A task with no explicit duration on the animation of intrinsic duration 0, and the
  renderer of its job when the duration is resolved.
\<close>

definition poseTask :: offscreenRenderTask where
  "poseTask = (task0 PngSequence ''pose'')\<lparr> duration := None \<rparr>"

definition poseRenderer :: spineRenderer where
  "poseRenderer =
     applyRenderParams poseTask
       (fst (load (loadResult (goodJob 0)) (files poseTask) (renderer newOffscreenRenderer)))"


text \<open>
  A batch of two selected assets: \<open>A\<close> loads, \<open>B\<close> fails to load during the scan.  In
  \<open>batchAB\<close> asset \<open>A\<close> has two animations and both jobs end well; in \<open>batchABC\<close> it
  has three.
\<close>

definition itemA :: animationItem where
  "itemA = \<lparr> itemId = ''a'', itemName = ''A'', itemFiles = files0 \<rparr>"

definition itemB :: animationItem where
  "itemB = \<lparr> itemId = ''b'', itemName = ''B'', itemFiles = files0 \<rparr>"

definition config0 :: exportConfig where
  "config0 = \<lparr> cfgWidth = 64, cfgHeight = 64, cfgFps = 2, cfgFormat = PngSequence,
               cfgDuration = Some 1, cfgBackgroundColor = None \<rparr>"

definition batchAB :: batchEnv where
  "batchAB =
     \<lparr> scanResult = (\<lambda>k. if k = 0 then Inr [(''walk'', 1), (''pose'', 0)] else Inl LoadFailed),
       abortDuringScan = (\<lambda>k. False),
       steps = [JobDone 0 (goodJob 10), JobDone 1 (goodJob 11)],
       zipResult = None \<rparr>"

definition batchABC :: batchEnv where
  "batchABC =
     batchAB\<lparr> scanResult :=
       (\<lambda>k. if k = 0 then Inr [(''walk'', 1), (''pose'', 0), (''idle'', 3)] else Inl LoadFailed) \<rparr>"

text \<open>The manager and the planned tasks of a run when the scan has ended.\<close>

definition scanned ::
  "batchEnv \<Rightarrow> exportConfig \<Rightarrow> nat option \<Rightarrow> animationItem list \<Rightarrow> nat set \<Rightarrow>
   exportManager \<times> (animationItem \<times> string \<times> offscreenRenderTask) list" where
  "scanned env cfg sg items ab0 =
     scanItems env cfg sg 0 items (newSpineRenderer 300 150)
       (markAll Waiting items (newExportManager\<lparr>abortedSignals := ab0\<rparr>)) []"

text \<open>The events of the submission of planned tasks, the first with promise \<open>p\<close>.\<close>

definition startEvents ::
  "nat \<Rightarrow> nat \<Rightarrow> (animationItem \<times> string \<times> offscreenRenderTask) list \<Rightarrow> event list" where
  "startEvents totalTasks p tasks =
     concat (map (\<lambda>(i, (item, anim, t)).
                    [Progress 1 totalTasks (TaskName (itemName item) anim),
                     Status (itemId item) Exporting] @
                    (if i < 2 then [Constructed i i] else []))
                 (enumerate p tasks))"

definition isExporting :: "event \<Rightarrow> bool" where
  "isExporting ev = (case ev of Status i st \<Rightarrow> st = Exporting | _ \<Rightarrow> False)"

definition isSettled :: "event \<Rightarrow> bool" where
  "isSettled ev = (case ev of Settled p st \<Rightarrow> True | _ \<Rightarrow> False)"

text \<open>Nothing is queued, active or running, and no identity has been given out.\<close>

definition idle :: "exportManager \<Rightarrow> bool" where
  "idle m \<longleftrightarrow>
     maxConcurrent m = 2 \<and> activeRenderers m = [] \<and> queue m = [] \<and> running m = [] \<and>
     nextRenderer m = 0 \<and> nextPromise m = 0"

text \<open>The run of \<open>batchABC\<close> when its three tasks have been submitted.\<close>

definition submittedABC :: batch where
  "submittedABC =
     submitPhase host0 config0 (Some 1)
       (snd (scanned batchABC config0 (Some 1) [itemA, itemB] {}))
       (fst (scanned batchABC config0 (Some 1) [itemA, itemB] {}))"

section \<open>The scheduler: one call of \<open>processQueue\<close>\<close>

declare processQueue.simps [simp del]

lemma signalAborted_eq: "signalAborted m sg = (\<exists>x. sg = Some x \<and> x \<in> abortedSignals m)"
  by (cases sg) (simp_all add: signalAborted_def)

lemma processQueue_full:
  "maxConcurrent m \<le> length (activeRenderers m) \<Longrightarrow> processQueue h m = m"
  by (subst processQueue.simps) simp

lemma processQueue_empty:
  "queue m = [] \<Longrightarrow> processQueue h m = m"
  by (subst processQueue.simps) simp

lemma processQueue_reject:
  assumes "length (activeRenderers m) < maxConcurrent m" and "queue m = item # rest"
    and "signalAborted m (abortSignal (task item))"
  shows "processQueue h m =
         processQueue h (emit (Settled (promise item) (Rejected AbortError)) (m\<lparr>queue := rest\<rparr>))"
  using assms by (subst processQueue.simps) (simp add: Let_def signalAborted_eq)

lemma processQueue_fail:
  assumes "length (activeRenderers m) < maxConcurrent m" and "queue m = item # rest"
    and "\<not> signalAborted m (abortSignal (task item))" and "\<not> webgl h"
  shows "processQueue h m = emit (ConstructFailed (promise item)) (m\<lparr>queue := rest\<rparr>)"
  using assms by (subst processQueue.simps) (auto simp add: Let_def signalAborted_eq)

lemma processQueue_admit:
  assumes "length (activeRenderers m) < maxConcurrent m" and "queue m = item # rest"
    and "\<not> signalAborted m (abortSignal (task item))" and "webgl h"
  shows "processQueue h m =
         m\<lparr>queue := rest, nextRenderer := nextRenderer m + 1,
           activeRenderers := setAdd (nextRenderer m) (activeRenderers m),
           running := running m @ [(nextRenderer m, item)],
           trace := trace m @ [Constructed (nextRenderer m) (promise item)]\<rparr>"
  using assms by (subst processQueue.simps) (auto simp add: Let_def emit_def signalAborted_eq)

text \<open>
  A property that relates a manager to what \<open>processQueue\<close> makes of it holds when it
  holds for each way a call can go: it stops at once, it rejects the head and goes on,
  the constructor throws, or the head is admitted.
\<close>

lemma processQueue_cases [case_names stop reject fail admit]:
  assumes stop: "\<And>m. maxConcurrent m \<le> length (activeRenderers m) \<or> queue m = [] \<Longrightarrow> P m m"
    and reject: "\<And>m item rest m'.
        length (activeRenderers m) < maxConcurrent m \<Longrightarrow> queue m = item # rest \<Longrightarrow>
        signalAborted m (abortSignal (task item)) \<Longrightarrow>
        P (m\<lparr>queue := rest, trace := trace m @ [Settled (promise item) (Rejected AbortError)]\<rparr>) m' \<Longrightarrow>
        P m m'"
    and fail: "\<And>m item rest.
        length (activeRenderers m) < maxConcurrent m \<Longrightarrow> queue m = item # rest \<Longrightarrow>
        \<not> signalAborted m (abortSignal (task item)) \<Longrightarrow> \<not> webgl h \<Longrightarrow>
        P m (m\<lparr>queue := rest, trace := trace m @ [ConstructFailed (promise item)]\<rparr>)"
    and admit: "\<And>m item rest.
        length (activeRenderers m) < maxConcurrent m \<Longrightarrow> queue m = item # rest \<Longrightarrow>
        \<not> signalAborted m (abortSignal (task item)) \<Longrightarrow> webgl h \<Longrightarrow>
        P m (m\<lparr>queue := rest, nextRenderer := nextRenderer m + 1,
               activeRenderers := setAdd (nextRenderer m) (activeRenderers m),
               running := running m @ [(nextRenderer m, item)],
               trace := trace m @ [Constructed (nextRenderer m) (promise item)]\<rparr>)"
  shows "P m (processQueue h m)"
proof (induction q \<equiv> "queue m" arbitrary: m)
  case Nil
  then have "processQueue h m = m" by (simp add: processQueue_empty)
  then show ?case using stop[of m] Nil by simp
next
  case (Cons item rest)
  have q: "queue m = item # rest" using Cons.hyps(2) by simp
  show ?case
  proof (cases "maxConcurrent m \<le> length (activeRenderers m)")
    case True
    then show ?thesis using stop[of m] by (simp add: processQueue_full)
  next
    case False
    then have l: "length (activeRenderers m) < maxConcurrent m" by simp
    show ?thesis
    proof (cases "signalAborted m (abortSignal (task item))")
      case True
      let ?m1 = "m\<lparr>queue := rest, trace := trace m @ [Settled (promise item) (Rejected AbortError)]\<rparr>"
      have "P ?m1 (processQueue h ?m1)"
        by (rule Cons.hyps(1)) simp
      then have "P m (processQueue h ?m1)"
        by (rule reject[OF l q True])
      then show ?thesis
        unfolding processQueue_reject[OF l q True] by (simp add: emit_def)
    next
      case na: False
      show ?thesis
      proof (cases "webgl h")
        case True
        show ?thesis
          unfolding processQueue_admit[OF l q na True] by (rule admit[OF l q na True])
      next
        case False
        show ?thesis
          unfolding processQueue_fail[OF l q na False] emit_def
          using fail[OF l q na False] by simp
      qed
    qed
  qed
qed

lemma processQueue_maxConcurrent [simp]:
  "maxConcurrent (processQueue h m) = maxConcurrent m"
  by (rule processQueue_cases[where P = "\<lambda>(m::exportManager) (m'::exportManager). maxConcurrent m' = maxConcurrent m"]) simp_all

lemma processQueue_abortedSignals [simp]:
  "abortedSignals (processQueue h m) = abortedSignals m"
  by (rule processQueue_cases[where P = "\<lambda>(m::exportManager) (m'::exportManager). abortedSignals m' = abortedSignals m"]) simp_all



lemma processQueue_no_webgl:
  "\<not> webgl h \<Longrightarrow> running (processQueue h m) = running m"
  by (rule processQueue_cases[where P = "\<lambda>(m::exportManager) (m'::exportManager). running m' = running m"]) simp_all

lemma length_setAdd: "length (setAdd x xs) \<le> Suc (length xs)"
  by (simp add: setAdd_def)

lemma processQueue_cap:
  "length (activeRenderers m) \<le> maxConcurrent m \<Longrightarrow>
   length (activeRenderers (processQueue h m)) \<le> maxConcurrent m"
proof (rule processQueue_cases[where P = "\<lambda>(m::exportManager) (m'::exportManager). length (activeRenderers m) \<le> maxConcurrent m \<longrightarrow>
      length (activeRenderers m') \<le> maxConcurrent m", rule_format])
  fix m :: exportManager and item rest
  assume "length (activeRenderers m) < maxConcurrent m"
  then show "length (activeRenderers (m\<lparr>queue := rest, nextRenderer := nextRenderer m + 1,
               activeRenderers := setAdd (nextRenderer m) (activeRenderers m),
               running := running m @ [(nextRenderer m, item)],
               trace := trace m @ [Constructed (nextRenderer m) (promise item)]\<rparr>)) \<le> maxConcurrent m"
    using length_setAdd[of "nextRenderer m" "activeRenderers m"] by simp
qed simp_all

lemma processQueue_wellFormed:
  "wellFormed m \<Longrightarrow> wellFormed (processQueue h m)"
proof (rule processQueue_cases[where P = "\<lambda>(m::exportManager) (m'::exportManager). wellFormed m \<longrightarrow> wellFormed m'", rule_format])
  fix m m' :: exportManager and item rest
  assume "queue m = item # rest" and "wellFormed m"
    and "wellFormed (m\<lparr>queue := rest, trace := trace m @ [Settled (promise item) (Rejected AbortError)]\<rparr>) \<Longrightarrow> wellFormed m'"
  then show "wellFormed m'" by (auto simp: wellFormed_def)
next
  fix m :: exportManager and item rest
  assume "queue m = item # rest" and "wellFormed m"
  then show "wellFormed (m\<lparr>queue := rest, trace := trace m @ [ConstructFailed (promise item)]\<rparr>)"
    by (auto simp: wellFormed_def)
next
  fix m :: exportManager and item rest
  assume "queue m = item # rest" and "wellFormed m"
  then show "wellFormed (m\<lparr>queue := rest, nextRenderer := nextRenderer m + 1,
               activeRenderers := setAdd (nextRenderer m) (activeRenderers m),
               running := running m @ [(nextRenderer m, item)],
               trace := trace m @ [Constructed (nextRenderer m) (promise item)]\<rparr>)"
    by (auto simp: wellFormed_def setAdd_def less_Suc_eq)
qed simp

lemma processQueue_saturated_aux:
  "webgl h \<longrightarrow> wellFormed m \<longrightarrow>
   (queue m \<noteq> [] \<longrightarrow> maxConcurrent m \<le> Suc (length (activeRenderers m))) \<longrightarrow>
   saturated (processQueue h m)"
proof (rule processQueue_cases[where P = "\<lambda>(m::exportManager) (m'::exportManager).
      webgl h \<longrightarrow> wellFormed m \<longrightarrow>
      (queue m \<noteq> [] \<longrightarrow> maxConcurrent m \<le> Suc (length (activeRenderers m))) \<longrightarrow> saturated m'"],
    goal_cases)
  case (1 m)
  then show ?case by (auto simp: saturated_def)
next
  case (2 m item rest m')
  have "wellFormed m \<Longrightarrow>
        wellFormed (m\<lparr>queue := rest, trace := trace m @ [Settled (promise item) (Rejected AbortError)]\<rparr>)"
    using 2(2) by (auto simp: wellFormed_def)
  then show ?case using 2 by simp
next
  case (3 m item rest)
  then show ?case by simp
next
  case (4 m item rest)
  have "wellFormed m \<Longrightarrow> nextRenderer m \<notin> set (activeRenderers m)"
    by (auto simp: wellFormed_def)
  then show ?case using 4 by (auto simp: saturated_def setAdd_def)
qed

lemma processQueue_saturated:
  "webgl h \<Longrightarrow> wellFormed m \<Longrightarrow>
   (queue m \<noteq> [] \<longrightarrow> maxConcurrent m \<le> Suc (length (activeRenderers m))) \<Longrightarrow>
   saturated (processQueue h m)"
  using processQueue_saturated_aux by blast

section \<open>The scheduler: histories\<close>

lemma perform_maxConcurrent [simp]: "maxConcurrent (perform h a m) = maxConcurrent m"
  by (cases a)
     (auto simp: exportTask_def afterRender_def cancelAll_def abortSignalNow_def emit_def Let_def
           split: option.splits prod.splits)

lemma length_removeAll_le: "length (removeAll x xs) \<le> length xs"
  by (rule length_removeAll_less_eq)

lemma perform_cap:
  assumes "length (activeRenderers m) \<le> maxConcurrent m"
  shows "length (activeRenderers (perform h a m)) \<le> maxConcurrent m"
proof (cases a)
  case (Submit t)
  then show ?thesis
    using processQueue_cap[of "m\<lparr>nextPromise := nextPromise m + 1,
          queue := queue m @ [\<lparr>task = t, promise = nextPromise m\<rparr>]\<rparr>" h] assms
    by (simp add: exportTask_def)
next
  case (Finish rid e)
  show ?thesis
  proof (cases "map_of (running m) rid")
    case None
    then show ?thesis using Finish assms by (simp add: afterRender_def)
  next
    case (Some item)
    obtain s res where r: "renderToVideo h e (task item) newOffscreenRenderer = (s, res)"
      by (cases "renderToVideo h e (task item) newOffscreenRenderer")
    define m4 where "m4 = (emit (Disposed rid) (emit (Settled (promise item) (settlementOf res))
        (m\<lparr>running := filter (\<lambda>(r, _). r \<noteq> rid) (running m),
           trace := trace m @ map (JobCall rid) (calls s)\<rparr>)))
        \<lparr>activeRenderers := removeAll rid (activeRenderers m)\<rparr>"
    have "length (activeRenderers m4) \<le> maxConcurrent m4"
      using order_trans[OF length_removeAll_le[of rid "activeRenderers m"] assms]
      by (simp add: m4_def emit_def)
    then have "length (activeRenderers (processQueue h m4)) \<le> maxConcurrent m4"
      by (rule processQueue_cap)
    moreover have "afterRender h rid e m = processQueue h m4"
      using Some r by (simp add: afterRender_def m4_def Let_def emit_def)
    ultimately show ?thesis using Finish by (simp add: m4_def emit_def)
  qed
next
  case CancelAll
  then show ?thesis by (simp add: cancelAll_def Let_def)
next
  case (Abort sg)
  then show ?thesis using assms by (simp add: abortSignalNow_def)
qed

lemma history_snoc: "history h (acts @ [a]) m = perform h a (history h acts m)"
  by (simp add: history_def)

lemma history_maxConcurrent [simp]: "maxConcurrent (history h acts m) = maxConcurrent m"
  by (induction acts rule: rev_induct) (simp_all add: history_snoc, simp add: history_def)

lemma history_cap:
  "length (activeRenderers m) \<le> maxConcurrent m \<Longrightarrow>
   length (activeRenderers (history h acts m)) \<le> maxConcurrent m"
proof (induction acts rule: rev_induct)
  case Nil
  then show ?case by (simp add: history_def)
next
  case (snoc a acts)
  then show ?case using perform_cap[of "history h acts m" h a] by (simp add: history_snoc)
qed


lemma afterRender_unfold:
  assumes "map_of (running m) rid = Some item"
  shows "\<exists>evs. afterRender h rid e m =
     processQueue h (m\<lparr>running := filter (\<lambda>(r, _). r \<noteq> rid) (running m),
                       trace := trace m @ evs,
                       activeRenderers := removeAll rid (activeRenderers m)\<rparr>)"
proof -
  obtain s res where r: "renderToVideo h e (task item) newOffscreenRenderer = (s, res)"
    by (cases "renderToVideo h e (task item) newOffscreenRenderer")
  show ?thesis
    apply (rule exI[of _ "map (JobCall rid) (calls s) @ [Settled (promise item) (settlementOf res), Disposed rid]"])
    using assms r by (simp add: afterRender_def emit_def Let_def)
qed

lemma wellFormed_shrink:
  assumes "wellFormed m"
  shows "wellFormed (m\<lparr>running := filter (\<lambda>(r, _). r \<noteq> rid) (running m),
                       trace := tr,
                       activeRenderers := removeAll rid (activeRenderers m)\<rparr>)"
proof -
  have F: "\<And>x r y. x \<in> set (queue m) \<Longrightarrow> (r, y) \<in> set (running m) \<Longrightarrow> promise x \<noteq> promise y"
    using assms by (fastforce simp: wellFormed_def)
  have "distinct (map (\<lambda>(r, item). promise item) (filter (\<lambda>(r, _). r \<noteq> rid) (running m)))"
    using assms by (simp add: wellFormed_def distinct_map_filter)
  then show ?thesis
    using assms F by (auto simp: wellFormed_def distinct_removeAll)
qed

lemma wellFormed_perform:
  assumes "wellFormed m"
  shows "wellFormed (perform h a m)"
proof (cases a)
  case (Submit t)
  have "wellFormed (m\<lparr>nextPromise := nextPromise m + 1,
          queue := queue m @ [\<lparr>task = t, promise = nextPromise m\<rparr>]\<rparr>)"
    using assms by (fastforce simp: wellFormed_def less_Suc_eq)
  then show ?thesis using Submit by (simp add: exportTask_def processQueue_wellFormed)
next
  case (Finish rid e)
  show ?thesis
  proof (cases "map_of (running m) rid")
    case None
    then show ?thesis using Finish assms by (simp add: afterRender_def)
  next
    case (Some item)
    from afterRender_unfold[OF Some, of h e] obtain evs where
      eq: "afterRender h rid e m =
         processQueue h (m\<lparr>running := filter (\<lambda>(r, _). r \<noteq> rid) (running m),
                       trace := trace m @ evs,
                       activeRenderers := removeAll rid (activeRenderers m)\<rparr>)" by blast
    have "wellFormed (m\<lparr>running := filter (\<lambda>(r, _). r \<noteq> rid) (running m),
                       trace := trace m @ evs,
                       activeRenderers := removeAll rid (activeRenderers m)\<rparr>)"
      using assms by (rule wellFormed_shrink)
    then show ?thesis using Finish eq by (simp add: processQueue_wellFormed)
  qed
next
  case CancelAll
  then show ?thesis using assms by (auto simp: cancelAll_def Let_def wellFormed_def)
next
  case (Abort sg)
  then show ?thesis using assms by (simp add: abortSignalNow_def wellFormed_def)
qed

lemma saturated_perform:
  assumes "webgl h" "wellFormed m" "saturated m"
  shows "saturated (perform h a m)"
proof (cases a)
  case (Submit t)
  let ?m1 = "m\<lparr>nextPromise := nextPromise m + 1,
          queue := queue m @ [\<lparr>task = t, promise = nextPromise m\<rparr>]\<rparr>"
  have wf: "wellFormed ?m1"
    using assms(2) by (fastforce simp: wellFormed_def less_Suc_eq)
  show ?thesis
  proof (cases "maxConcurrent m \<le> length (activeRenderers m)")
    case True
    then show ?thesis using Submit by (simp add: exportTask_def processQueue_full saturated_def)
  next
    case False
    then have q: "queue m = []" using assms(3) by (auto simp: saturated_def)
    have "processQueue h ?m1 = processQueue h ?m1" by simp
    show ?thesis
      using Submit False q assms(1,2)
      apply (simp add: exportTask_def)
      apply (subst processQueue.simps)
      apply (auto simp: Let_def emit_def saturated_def processQueue_empty)
      done
  qed
next
  case (Finish rid e)
  show ?thesis
  proof (cases "map_of (running m) rid")
    case None
    then show ?thesis using Finish assms by (simp add: afterRender_def)
  next
    case (Some item)
    from afterRender_unfold[OF Some, of h e] obtain evs where
      eq: "afterRender h rid e m =
         processQueue h (m\<lparr>running := filter (\<lambda>(r, _). r \<noteq> rid) (running m),
                       trace := trace m @ evs,
                       activeRenderers := removeAll rid (activeRenderers m)\<rparr>)" by blast
    let ?m4 = "m\<lparr>running := filter (\<lambda>(r, _). r \<noteq> rid) (running m),
                       trace := trace m @ evs,
                       activeRenderers := removeAll rid (activeRenderers m)\<rparr>"
    have wf: "wellFormed ?m4"
      using assms(2) by (rule wellFormed_shrink)
    have d: "distinct (activeRenderers m)" using assms(2) by (simp add: wellFormed_def)
    have "length (activeRenderers m) \<le> Suc (length (removeAll rid (activeRenderers m)))"
      using d by (auto simp add: distinct_remove1_removeAll[symmetric] length_remove1)
    then have "queue ?m4 \<noteq> [] \<longrightarrow> maxConcurrent ?m4 \<le> Suc (length (activeRenderers ?m4))"
      using assms(3) by (auto simp: saturated_def)
    then show ?thesis using Finish eq processQueue_saturated[OF assms(1) wf] by simp
  qed
next
  case CancelAll
  then show ?thesis by (simp add: cancelAll_def Let_def saturated_def)
next
  case (Abort sg)
  then show ?thesis using assms by (simp add: abortSignalNow_def saturated_def)
qed

lemma wellFormed_new: "wellFormed newExportManager"
  by (simp add: wellFormed_def newExportManager_def)

lemma saturated_new: "saturated newExportManager"
  by (simp add: saturated_def newExportManager_def)

lemma wellFormed_history: "wellFormed m \<Longrightarrow> wellFormed (history h acts m)"
  by (induction acts rule: rev_induct) (simp_all add: history_snoc wellFormed_perform, simp add: history_def)

lemma saturated_history:
  "webgl h \<Longrightarrow> wellFormed m \<Longrightarrow> saturated m \<Longrightarrow> saturated (history h acts m)"
  by (induction acts rule: rev_induct)
     (simp_all add: history_snoc saturated_perform wellFormed_history, simp add: history_def)

lemma queued_not_running:
  "wellFormed m \<Longrightarrow> item \<in> set (queue m) \<Longrightarrow> (r, item) \<notin> set (running m)"
  by (fastforce simp: wellFormed_def)

lemma admitted_only_by_finish:
  assumes wf: "wellFormed m" and sat: "webgl h \<longrightarrow> saturated m"
    and q: "item \<in> set (queue m)" and r: "(r, item) \<in> set (running (perform h a m))"
  shows "\<exists>rid e. a = Finish rid e \<and> rid \<in> set (activeRenderers m)"
proof (cases a)
  case (Submit t)
  let ?m1 = "m\<lparr>nextPromise := nextPromise m + 1,
          queue := queue m @ [\<lparr>task = t, promise = nextPromise m\<rparr>]\<rparr>"
  have "running (processQueue h ?m1) = running m"
  proof (cases "webgl h")
    case True
    then have "maxConcurrent m \<le> length (activeRenderers m)"
      using sat q by (auto simp: saturated_def)
    then show ?thesis by (simp add: processQueue_full)
  next
    case False
    then show ?thesis by (simp add: processQueue_no_webgl)
  qed
  then show ?thesis using Submit r queued_not_running[OF wf q] by (simp add: exportTask_def)
next
  case (Finish rid e)
  show ?thesis
  proof (cases "map_of (running m) rid")
    case None
    then show ?thesis using Finish r queued_not_running[OF wf q] by (simp add: afterRender_def)
  next
    case (Some it)
    from afterRender_unfold[OF Some, of h e] obtain evs where
      eq: "afterRender h rid e m =
         processQueue h (m\<lparr>running := filter (\<lambda>(r, _). r \<noteq> rid) (running m),
                       trace := trace m @ evs,
                       activeRenderers := removeAll rid (activeRenderers m)\<rparr>)" by blast
    let ?m4 = "m\<lparr>running := filter (\<lambda>(r, _). r \<noteq> rid) (running m),
                       trace := trace m @ evs,
                       activeRenderers := removeAll rid (activeRenderers m)\<rparr>"
    show ?thesis
    proof (rule ccontr)
      assume "\<not> ?thesis"
      then have nin: "rid \<notin> set (activeRenderers m)" using Finish by simp
      have "running (processQueue h ?m4) = running ?m4"
      proof (cases "webgl h")
        case True
        then have "maxConcurrent m \<le> length (activeRenderers m)"
          using sat q by (auto simp: saturated_def)
        then show ?thesis using nin by (simp add: processQueue_full)
      next
        case False
        then show ?thesis by (simp add: processQueue_no_webgl)
      qed
      then have "(r, item) \<in> set (running m)" using r Finish eq by simp
      then show False using queued_not_running[OF wf q] by simp
    qed
  qed
next
  case CancelAll
  then show ?thesis using r queued_not_running[OF wf q] by (simp add: cancelAll_def Let_def)
next
  case (Abort sg)
  then show ?thesis using r queued_not_running[OF wf q] by (simp add: abortSignalNow_def)
qed


lemma entries_snoc: "entries p (ts @ [t]) = entries p ts @ [\<lparr>task = t, promise = p + length ts\<rparr>]"
  by (simp add: entries_def enumerate_append_eq)

lemma length_entries [simp]: "length (entries p ts) = length ts"
  by (simp add: entries_def)

lemma history_aborts:
  "history h (map Abort sigs) m = m\<lparr>abortedSignals := abortedSignals m \<union> set sigs\<rparr>"
proof (induction sigs rule: rev_induct)
  case Nil
  then show ?case by (simp add: history_def)
next
  case (snoc s sigs)
  then show ?case by (simp add: history_snoc abortSignalNow_def Un_commute insert_commute)
qed

lemma exportTask_afterSubmits:
  assumes "webgl h" "\<not> signalAborted (afterSubmits A ts) (abortSignal t)"
  shows "exportTask h t (afterSubmits A ts) = afterSubmits A (ts @ [t])"
proof -
  consider "length ts = 0" | "length ts = 1" | "2 \<le> length ts" by linarith
  then show ?thesis
  proof cases
    case 1
    then show ?thesis using assms
      apply (simp add: exportTask_def afterSubmits_def entries_def)
      apply (subst processQueue.simps)
      apply (auto simp add: Let_def emit_def setAdd_def signalAborted_eq entries_def)
      done
  next
    case 2
    then obtain t0 where ts: "ts = [t0]" by (cases ts) auto
    show ?thesis using assms unfolding ts
      apply (simp add: exportTask_def afterSubmits_def entries_def)
      apply (subst processQueue.simps)
      apply (auto simp add: Let_def emit_def setAdd_def signalAborted_eq entries_def)
      done
  next
    case 3
    then have m: "min 2 (length ts) = 2" "min 2 (Suc (length ts)) = 2" by auto
    show ?thesis using 3
      apply (simp add: exportTask_def afterSubmits_def entries_snoc m)
      apply (subst processQueue.simps)
      apply (simp add: m)
      apply (simp add: numeral_2_eq_2)
      done
  qed
qed

lemma history_submits:
  assumes "webgl h" "\<forall>t \<in> set ts. \<forall>s \<in> set sigs. abortSignal t \<noteq> Some s"
  shows "history h (map Abort sigs @ map Submit ts) newExportManager = afterSubmits (set sigs) ts"
  using assms(2)
proof (induction ts rule: rev_induct)
  case Nil
  show ?case
    by (simp add: history_aborts afterSubmits_def newExportManager_def entries_def)
next
  case (snoc t ts)
  have "\<not> signalAborted (afterSubmits (set sigs) ts) (abortSignal t)"
    using snoc.prems by (auto simp: signalAborted_eq afterSubmits_def)
  then show ?case
    using snoc exportTask_afterSubmits[OF assms(1), of "set sigs" ts t]
    by (simp add: history_snoc[of h "map Abort sigs @ map Submit ts", simplified])
qed

lemma processQueue_cancelled_prefix:
  assumes "length (activeRenderers m) < maxConcurrent m"
    and "queue m = pre @ rest"
    and "\<forall>item \<in> set pre. signalAborted m (abortSignal (task item))"
  shows "processQueue h m =
         processQueue h (m\<lparr>queue := rest,
            trace := trace m @ map (\<lambda>item. Settled (promise item) (Rejected AbortError)) pre\<rparr>)"
  using assms
proof (induction pre arbitrary: m)
  case Nil
  have "m\<lparr>queue := rest\<rparr> = m" using Nil.prems(2) by simp
  then show ?case by simp
next
  case (Cons item pre)
  let ?m1 = "emit (Settled (promise item) (Rejected AbortError)) (m\<lparr>queue := pre @ rest\<rparr>)"
  have "processQueue h m = processQueue h ?m1"
    using Cons.prems by (subst processQueue.simps) (simp add: Let_def signalAborted_eq)
  also have "\<dots> = processQueue h (?m1\<lparr>queue := rest,
            trace := trace ?m1 @ map (\<lambda>item. Settled (promise item) (Rejected AbortError)) pre\<rparr>)"
    apply (rule Cons.IH)
    using Cons.prems by (simp_all add: emit_def signalAborted_eq)
  finally show ?case by (simp add: emit_def)
qed

section \<open>Jobs: the frame loop\<close>

declare frameLoop.simps [simp del]








lemma setBackgroundColor_fields [simp]:
  "skeleton (setBackgroundColor c r) = skeleton r"
  "bounds (setBackgroundColor c r) = bounds r"
  "isPlaying (setBackgroundColor c r) = isPlaying r"
  "timeScale (setBackgroundColor c r) = timeScale r"
  "track (setBackgroundColor c r) = track r"
  "totalTime (setBackgroundColor c r) = totalTime r"
  by (simp_all add: setBackgroundColor_def Let_def)


lemma recordDurationOf_resolved:
  "recordDurationOf t r = resolvedDuration (duration t) (totalTime r)"
  by (auto simp: recordDurationOf_def resolvedDuration_def animDurationOf_def split: option.splits)











section \<open>Jobs: what a run leaves in the trace\<close>

lemma applyRenderParams_totalTime:
  assumes "skeleton r = Some anims" "map_of anims (animation t) = Some d"
  shows "totalTime (applyRenderParams t r) = d"
  using assms
  by (auto simp: applyRenderParams_def resize_def setAnimation_def
      setPaused_def setTargetFPS_def resetAnimation_def Let_def split: option.splits)

lemma frameCall_not_stop: "frameCall f fp i \<noteq> stopCallOf f"
  by (cases f) (simp_all add: frameCall_def stopCallOf_def)






lemma afterRender_result:
  assumes "map_of (running m) rid = Some item"
    and "renderToVideo h e (task item) newOffscreenRenderer = (s, res)"
  shows "afterRender h rid e m =
     processQueue h (m\<lparr>running := filter (\<lambda>(r, _). r \<noteq> rid) (running m),
                       trace := trace m @ map (JobCall rid) (calls s) @
                                [Settled (promise item) (settlementOf res), Disposed rid],
                       activeRenderers := removeAll rid (activeRenderers m)\<rparr>)"
  using assms by (simp add: afterRender_def emit_def Let_def)





section \<open>The background colour\<close>

lemma hex_not_space: "isHexDigit c \<Longrightarrow> \<not> isWhiteSpace c"
  by (auto simp: isHexDigit_def hexDigit_def isWhiteSpace_def Let_def split: if_splits)

lemma plus_not_hex: "\<not> isHexDigit CHR ''+''" and minus_not_hex: "\<not> isHexDigit CHR ''-''"
  by (simp_all add: isHexDigit_def hexDigit_def)

lemma x_not_hex: "\<not> isHexDigit CHR ''x''" "\<not> isHexDigit CHR ''X''"
  by (simp_all add: isHexDigit_def hexDigit_def)

lemma plus_not_space: "\<not> isWhiteSpace CHR ''+''" "\<not> isWhiteSpace CHR ''-''"
  by (simp_all add: isWhiteSpace_def)

lemma parseInt16_NaN:
  "parseInt16 s = NaN \<longleftrightarrow>
     takeWhile isHexDigit (stripPrefix (stripSign (dropWhile isWhiteSpace s))) = []"
  by (simp add: parseInt16_def Let_def)

lemma parseInt16_short:
  assumes "length s \<le> 2"
  shows "parseInt16 s = NaN \<longleftrightarrow> \<not> parsesAsHex s"
proof -
  consider "s = []" | c where "s = [c]" | c d where "s = [c, d]"
    using assms by (cases s; cases "tl s"; cases "tl (tl s)") auto
  then show ?thesis
  proof cases
    case 1
    then show ?thesis by (simp add: parseInt16_NaN parsesAsHex_def stripSign_def stripPrefix_def)
  next
    case 2
    then show ?thesis
      using hex_not_space[of c] plus_not_hex minus_not_hex
      by (auto simp: parseInt16_NaN parsesAsHex_def stripSign_def stripPrefix_def)
  next
    case 3
    then show ?thesis
      using hex_not_space[of c] hex_not_space[of d] plus_not_hex minus_not_hex x_not_hex
        plus_not_space
      by (auto simp: parseInt16_NaN parsesAsHex_def stripSign_def stripPrefix_def
          split: if_splits)
  qed
qed

lemma length_slice2: "length (slice a (a + 2) s) \<le> 2"
  by (simp add: slice_def)

lemma js_div_NaN: "js_div x d = NaN \<longleftrightarrow> x = NaN"
  by (cases x) (simp_all add: js_div_def)

lemma component_NaN:
  "b = a + 2 \<Longrightarrow>
   js_div (parseInt16 (slice a b s)) 255 = NaN \<longleftrightarrow> \<not> parsesAsHex (slice a b s)"
  using parseInt16_short[OF length_slice2[of a s]] by (simp add: js_div_NaN)

lemma updateAndRender_gl:
  "bgColor (updateAndRender dt r) = bgColor r \<and>
   clearColors (gl (updateAndRender dt r)) =
     clearColors (gl r) @ [case bgColor r of (cr, cg, cb, ca) \<Rightarrow> ClearColor cr cg cb ca]"
  by (auto simp: updateAndRender_def stateUpdate_def clearColors_def Let_def
      split: prod.splits option.splits)

lemma renderFrames_gl:
  "bgColor (renderFrames dts r) = bgColor r \<and>
   clearColors (gl (renderFrames dts r)) =
     clearColors (gl r) @
     replicate (length dts) (case bgColor r of (cr, cg, cb, ca) \<Rightarrow> ClearColor cr cg cb ca)"
proof (induction dts rule: rev_induct)
  case Nil
  then show ?case by (simp add: renderFrames_def)
next
  case (snoc dt dts)
  have "renderFrames (dts @ [dt]) r = updateAndRender dt (renderFrames dts r)"
    by (simp add: renderFrames_def)
  then show ?case
    using snoc updateAndRender_gl[of dt "renderFrames dts r"]
    by (simp add: replicate_append_same)
qed

section \<open>The batch: scan and submission\<close>

lemma idle_eq: "idle m \<Longrightarrow> m = (afterSubmits (abortedSignals m) [])\<lparr>trace := trace m\<rparr>"
  by (simp add: idle_def afterSubmits_def entries_def)

lemma idle_emit [simp]: "idle (emit ev m) = idle m"
  by (simp add: idle_def emit_def)

lemma idle_userAbort [simp]: "idle (userAbort sg m) = idle m"
  by (cases sg) (simp_all add: idle_def userAbort_def abortSignalNow_def)

lemma idle_markAll: "idle (markAll st items m) = idle m"
  unfolding markAll_def by (induction items arbitrary: m) simp_all

lemma exporting_userAbort [simp]: "trace (userAbort sg m) = trace m"
  by (cases sg) (simp_all add: userAbort_def abortSignalNow_def)

lemma exporting_markAll:
  "st \<noteq> Exporting \<Longrightarrow> filter isExporting (trace (markAll st items m)) = filter isExporting (trace m)"
  unfolding markAll_def
  by (induction items arbitrary: m) (simp_all add: emit_def isExporting_def)

lemma scanItems_props:
  assumes "scanItems env cfg sg k items r m tasks = (m1, tasks1)"
    and "idle m" and "\<forall>(item, anim, t) \<in> set tasks. abortSignal t = sg"
  shows "idle m1 \<and> (\<forall>(item, anim, t) \<in> set tasks1. abortSignal t = sg) \<and>
         filter isExporting (trace m1) = filter isExporting (trace m)"
  using assms
proof (induction env cfg sg k items r m tasks rule: scanItems.induct)
  case (1 env cfg sg k r m tasks)
  then show ?case by simp
next
  case (2 env cfg sg k item items r m tasks)
  show ?case
  proof (cases "signalAborted m sg")
    case True
    then show ?thesis using "2.prems" by simp
  next
    case False
    obtain r' res where l: "load (scanResult env k) (itemFiles item) r = (r', res)"
      by (cases "load (scanResult env k) (itemFiles item) r")
    let ?m' = "if abortDuringScan env k then userAbort sg m else m"
    have im: "idle ?m'" using "2.prems"(2) by simp
    have tm: "trace ?m' = trace m" by simp
    show ?thesis
    proof (cases res)
      case (Inr animations)
      let ?tasks' = "tasks @ map (\<lambda>anim. (item, anim, makeTask cfg sg item anim)) animations"
      have eq: "scanItems env cfg sg (k + 1) items r' ?m' ?tasks' = (m1, tasks1)"
        using "2.prems"(1) False l Inr by (simp add: Let_def)
      have ts: "\<forall>(item, anim, t) \<in> set ?tasks'. abortSignal t = sg"
        using "2.prems"(3) by (auto simp: makeTask_def)
      from "2.IH"(2)[OF False l[symmetric] refl Inr eq im ts] tm
      show ?thesis by simp
    next
      case (Inl err)
      let ?m2 = "emit (Status (itemId item) Failed) ?m'"
      have eq: "scanItems env cfg sg (k + 1) items r' ?m2 tasks = (m1, tasks1)"
        using "2.prems"(1) False l Inl by (simp add: Let_def)
      have im2: "idle ?m2" using im by simp
      have tm2: "filter isExporting (trace ?m2) = filter isExporting (trace m)"
        by (simp add: emit_def isExporting_def)
      from "2.IH"(1)[OF False l[symmetric] refl Inl eq im2 "2.prems"(3)] tm2
      show ?thesis by simp
    qed
  qed
qed

lemma scanned_props:
  assumes "scanned env cfg sg items ab0 = (m1, tasks)"
  shows "idle m1" and "\<forall>(item, anim, t) \<in> set tasks. abortSignal t = sg"
    and "filter isExporting (trace m1) = []"
proof -
  let ?m0 = "markAll Waiting items (newExportManager\<lparr>abortedSignals := ab0\<rparr>)"
  have i0: "idle ?m0" by (simp add: idle_markAll) (simp add: idle_def newExportManager_def)
  have e0: "filter isExporting (trace ?m0) = []"
    by (simp add: exporting_markAll newExportManager_def)
  from scanItems_props[OF assms[unfolded scanned_def] i0] e0
  show "idle m1" and "\<forall>(item, anim, t) \<in> set tasks. abortSignal t = sg"
    and "filter isExporting (trace m1) = []" by simp_all
qed

lemma exportTask_afterSubmits_trace:
  assumes "webgl h" "\<not> signalAborted (afterSubmits A ts) (abortSignal t)"
  shows "exportTask h t ((afterSubmits A ts)\<lparr>trace := tr\<rparr>) =
         (afterSubmits A (ts @ [t]))
           \<lparr>trace := tr @ (if length ts < 2 then [Constructed (length ts) (length ts)] else [])\<rparr>"
proof -
  consider "length ts = 0" | "length ts = 1" | "2 \<le> length ts" by linarith
  then show ?thesis
  proof cases
    case 1
    then show ?thesis using assms
      apply (simp add: exportTask_def afterSubmits_def entries_def)
      apply (subst processQueue.simps)
      apply (auto simp add: Let_def emit_def setAdd_def signalAborted_eq entries_def)
      done
  next
    case 2
    then obtain t0 where ts: "ts = [t0]" by (cases ts) auto
    show ?thesis using assms unfolding ts
      apply (simp add: exportTask_def afterSubmits_def entries_def)
      apply (subst processQueue.simps)
      apply (auto simp add: Let_def emit_def setAdd_def signalAborted_eq entries_def)
      done
  next
    case 3
    then have m: "min 2 (length ts) = 2" "min 2 (Suc (length ts)) = 2" by auto
    show ?thesis using 3
      apply (simp add: exportTask_def afterSubmits_def entries_snoc m)
      apply (subst processQueue.simps)
      apply (simp add: m)
      apply (simp add: numeral_2_eq_2)
      done
  qed
qed

lemma startEvents_Cons:
  "startEvents n p ((item, anim, t) # rest) =
     [Progress 1 n (TaskName (itemName item) anim), Status (itemId item) Exporting] @
     (if p < 2 then [Constructed p p] else []) @ startEvents n (Suc p) rest"
  by (simp add: startEvents_def enumerate_simps)

lemma submitAll_trace:
  assumes "webgl h"
    and "\<forall>(item, anim, t) \<in> set tasks. abortSignal t = sg"
    and "\<not> signalAborted (afterSubmits A ts) sg"
    and "manager b = (afterSubmits A ts)\<lparr>trace := tr\<rparr>" and "completed b = 0"
  shows "submitAll h sg n tasks b =
           b\<lparr>manager := (afterSubmits A (ts @ map (\<lambda>(item, anim, t). t) tasks))
                           \<lparr>trace := tr @ startEvents n (length ts) tasks\<rparr>,
             closures := closures b @
                         map (\<lambda>(i, (item, anim, t)). (i, item, anim)) (enumerate (length ts) tasks)\<rparr>"
  using assms(2-5)
proof (induction tasks arbitrary: ts tr b)
  case Nil
  then show ?case by (simp add: startEvents_def)
next
  case (Cons x tasks)
  obtain item anim t where x: "x = (item, anim, t)" by (cases x) auto
  have sg: "abortSignal t = sg" using Cons.prems(1) x by simp
  have na: "\<not> signalAborted (manager b) sg"
    using Cons.prems(2,3) by (simp add: signalAborted_eq afterSubmits_def)
  let ?tr1 = "tr @ [Progress 1 n (TaskName (itemName item) anim), Status (itemId item) Exporting]"
  let ?m2 = "(afterSubmits A ts)\<lparr>trace := ?tr1\<rparr>"
  let ?tr3 = "?tr1 @ (if length ts < 2 then [Constructed (length ts) (length ts)] else [])"
  let ?m3 = "(afterSubmits A (ts @ [t]))\<lparr>trace := ?tr3\<rparr>"
  let ?b' = "b\<lparr>manager := ?m3, closures := closures b @ [(length ts, item, anim)]\<rparr>"
  let ?M2 = "emit (Status (itemId item) Exporting)
              (emit (Progress (completed b + 1) n (TaskName (itemName item) anim)) (manager b))"
  have m2: "?M2 = ?m2"
    using Cons.prems(3,4) by (simp add: emit_def)
  have np: "nextPromise ?m2 = length ts" by (simp add: afterSubmits_def)
  have m3: "exportTask h t ?m2 = ?m3"
    using exportTask_afterSubmits_trace[OF assms(1), of A ts t ?tr1] Cons.prems(2) sg by simp
  have "submitAll h sg n (x # tasks) b =
        submitAll h sg n tasks
          (b\<lparr>manager := exportTask h t ?M2, closures := closures b @ [(nextPromise ?M2, item, anim)]\<rparr>)"
    unfolding x using na by (simp only: submitAll.simps if_False Let_def)
  then have step: "submitAll h sg n (x # tasks) b = submitAll h sg n tasks ?b'"
    by (simp only: m2 np m3)
  have nb: "\<not> signalAborted (afterSubmits A (ts @ [t])) sg"
    using Cons.prems(2) by (simp add: signalAborted_eq afterSubmits_def)
  have rest: "\<forall>(item, anim, t) \<in> set tasks. abortSignal t = sg" using Cons.prems(1) by simp
  have "submitAll h sg n tasks ?b' =
          ?b'\<lparr>manager := (afterSubmits A ((ts @ [t]) @ map (\<lambda>(item, anim, t). t) tasks))
                           \<lparr>trace := ?tr3 @ startEvents n (length (ts @ [t])) tasks\<rparr>,
             closures := closures ?b' @
                         map (\<lambda>(i, (item, anim, t)). (i, item, anim))
                           (enumerate (length (ts @ [t])) tasks)\<rparr>"
    by (rule Cons.IH[OF rest nb]) (use Cons.prems(4) in simp_all)
  then show ?case
    unfolding step by (simp add: x startEvents_Cons enumerate_simps)
qed

lemma resumeClosures_noSettled:
  "\<forall>ev \<in> set evs. \<not> isSettled ev \<Longrightarrow> resumeClosures cfg sg n evs b = b"
proof (induction evs)
  case Nil
  then show ?case by simp
next
  case (Cons ev evs)
  then show ?case by (cases ev) (simp_all add: isSettled_def)
qed

lemma startEvents_noSettled: "\<forall>ev \<in> set (startEvents n p tasks). \<not> isSettled ev"
  by (induction tasks arbitrary: p) (auto simp: startEvents_Cons isSettled_def startEvents_def)

lemma submitPhase_eq:
  assumes "webgl h" and "idle m1"
    and "\<forall>(item, anim, t) \<in> set tasks. abortSignal t = sg"
    and "\<not> signalAborted m1 sg"
  shows "submitPhase h cfg sg tasks m1 =
           \<lparr> manager = (afterSubmits (abortedSignals m1) (map (\<lambda>(item, anim, t). t) tasks))
                          \<lparr>trace := trace m1 @ [Progress 0 (length tasks) Preparing] @
                                    startEvents (length tasks) 0 tasks\<rparr>,
             completed = 0, zip = [],
             closures = map (\<lambda>(i, (item, anim, t)). (i, item, anim)) (enumerate 0 tasks) \<rparr>"
proof -
  let ?A = "abortedSignals m1"
  let ?n = "length tasks"
  let ?tr = "trace m1 @ [Progress 0 ?n Preparing]"
  let ?b0 = "\<lparr> manager = emit (Progress 0 ?n Preparing) m1, completed = 0, zip = [], closures = [] \<rparr>"
  have mb: "manager ?b0 = (afterSubmits ?A [])\<lparr>trace := ?tr\<rparr>"
    using arg_cong[OF idle_eq[OF assms(2)], of "emit (Progress 0 ?n Preparing)"]
    by (simp add: emit_def)
  have na: "\<not> signalAborted (afterSubmits ?A []) sg"
    using assms(4) by (simp add: signalAborted_eq afterSubmits_def)
  from submitAll_trace[OF assms(1,3) na mb, of ?n]
  have sa: "submitAll h sg ?n tasks ?b0 =
      \<lparr> manager = (afterSubmits ?A (map (\<lambda>(item, anim, t). t) tasks))
                          \<lparr>trace := ?tr @ startEvents ?n 0 tasks\<rparr>,
             completed = 0, zip = [],
             closures = map (\<lambda>(i, (item, anim, t)). (i, item, anim)) (enumerate 0 tasks) \<rparr>"
    by simp
  have len: "length (trace (emit (Progress 0 ?n Preparing) m1)) = length ?tr"
    by (simp add: emit_def)
  show ?thesis
    unfolding submitPhase_def Let_def sa len
    by (simp add: resumeClosures_noSettled startEvents_noSettled)
qed

lemma isExporting_simps [simp]:
  "\<not> isExporting (Constructed r p)" "\<not> isExporting (ConstructFailed p)"
  "\<not> isExporting (JobCall r c)" "\<not> isExporting (Settled p st')"
  "\<not> isExporting (Disposed r)" "\<not> isExporting (Progress a b l)"
  "isExporting (Status i st) = (st = Exporting)"
  "\<not> isExporting (ZipFile nm data)" "\<not> isExporting (Download z)"
  by (simp_all add: isExporting_def)

lemma lastStatus_append:
  "lastStatus (xs @ ys) i = (case lastStatus ys i of Some st \<Rightarrow> Some st | None \<Rightarrow> lastStatus xs i)"
  by (induction xs) (auto split: option.splits)

lemma lastStatus_startEvents:
  "lastStatus (startEvents n p tasks) i =
     (if i \<in> (\<lambda>x. itemId (fst x)) ` set tasks then Some Exporting else None)"
proof (induction tasks arbitrary: p)
  case Nil
  then show ?case by (simp add: startEvents_def)
next
  case (Cons x tasks)
  obtain item anim t where x: "x = (item, anim, t)" by (cases x) auto
  have a: "lastStatus ([Progress 1 n (TaskName (itemName item) anim),
              Status (itemId item) Exporting] @ (if p < 2 then [Constructed p p] else [])) i
           = (if i = itemId item then Some Exporting else None)"
    by simp
  show ?case
    unfolding x startEvents_Cons
    apply (subst append_assoc[symmetric])
    apply (subst lastStatus_append)
    apply (simp only: a Cons.IH)
    apply (cases "i \<in> (\<lambda>x. itemId (fst x)) ` set tasks")
     apply auto
    done
qed

lemma exporting_startEvents:
  "Status i Exporting \<in> set (startEvents n p tasks) \<longleftrightarrow>
     i \<in> (\<lambda>x. itemId (fst x)) ` set tasks"
  by (induction tasks arbitrary: p) (auto simp: startEvents_Cons startEvents_def)

lemma processQueue_exporting:
  "filter isExporting (trace (processQueue h m)) = filter isExporting (trace m)"
  by (rule processQueue_cases[where P = "\<lambda>(m::exportManager) (m'::exportManager). filter isExporting (trace m') = filter isExporting (trace m)"])
     simp_all

lemma afterRender_exporting:
  "filter isExporting (trace (afterRender h rid e m)) = filter isExporting (trace m)"
proof (cases "map_of (running m) rid")
  case None
  then show ?thesis by (simp add: afterRender_def)
next
  case (Some item)
  obtain s res where r: "renderToVideo h e (task item) newOffscreenRenderer = (s, res)"
    by (cases "renderToVideo h e (task item) newOffscreenRenderer")
  have "filter isExporting (map (JobCall rid) (calls s)) = []"
    by (simp add: filter_empty_conv)
  then show ?thesis
    unfolding afterRender_result[OF Some r] processQueue_exporting
    by simp
qed

lemma resume_exporting:
  "filter isExporting (trace (manager (resume cfg sg n item anim st b)))
     = filter isExporting (trace (manager b))"
  by (cases st) (simp_all add: resume_def Let_def emit_def)

lemma resumeClosures_exporting:
  "filter isExporting (trace (manager (resumeClosures cfg sg n evs b)))
     = filter isExporting (trace (manager b))"
proof (induction evs arbitrary: b)
  case Nil
  then show ?case by simp
next
  case (Cons ev evs)
  show ?case
  proof (cases ev)
    case (Settled p st)
    show ?thesis
    proof (cases "map_of (closures b) p")
      case None
      then show ?thesis using Settled Cons.IH by simp
    next
      case (Some ia)
      obtain item anim where ia: "ia = (item, anim)" by (cases ia) auto
      show ?thesis
        using Settled Some ia Cons.IH resume_exporting
        by simp
    qed
  qed (simp_all add: Cons.IH)
qed

lemma runSteps_exporting:
  "filter isExporting (trace (manager (runSteps h cfg sg n sts b)))
     = filter isExporting (trace (manager b))"
proof (induction sts arbitrary: b)
  case Nil
  then show ?case by simp
next
  case (Cons st sts)
  show ?case
  proof (cases "closures b = []")
    case True
    then show ?thesis by simp
  next
    case False
    show ?thesis
    proof (cases st)
      case (JobDone rid e)
      then show ?thesis
        using False Cons.IH resumeClosures_exporting afterRender_exporting
        by (simp add: Let_def)
    next
      case UserAbort
      then show ?thesis using False Cons.IH by simp
    qed
  qed
qed

lemma promise_entries: "map promise (entries p ts) = [p..<p + length ts]"
proof (induction ts arbitrary: p)
  case Nil
  then show ?case by (simp add: entries_def)
next
  case (Cons t ts)
  have "entries p (t # ts) = \<lparr>task = t, promise = p\<rparr> # entries (Suc p) ts"
    by (simp add: entries_def enumerate_simps)
  then show ?case using Cons.IH[of "Suc p"] by (simp add: upt_rec)
qed

lemma markAll_trace:
  "trace (markAll st items m) = trace m @ map (\<lambda>item. Status (itemId item) st) items"
  unfolding markAll_def
  by (induction items arbitrary: m) (simp_all add: emit_def)

lemma lastStatus_marks_all:
  "lastStatus (map (\<lambda>item. Status (itemId item) st) items) i =
     (if i \<in> itemId ` set items then Some st else None)"
  by (induction items) auto

lemma lastStatus_marks:
  "item \<in> set items \<Longrightarrow>
   lastStatus (map (\<lambda>item. Status (itemId item) st) items) (itemId item) = Some st"
  by (simp add: lastStatus_marks_all)

text \<open>
  Whenever the run gets to its last status pass, every selected item ends \<open>completed\<close>,
  whatever was reported for it before.
\<close>

lemma finishExport_marks_all:
  assumes "closures b = []" and "\<not> signalAborted (manager b) sg" and "zipResult env = None"
    and "item \<in> set items"
  shows "lastStatus (snd (finishExport env items sg n b)) (itemId item) = Some Completed"
  using assms lastStatus_marks[of item items Completed]
  by (simp add: finishExport_def Let_def markAll_trace lastStatus_append)

section \<open>Claims on the scheduler\<close>

lemma rejection_eq: "(\<lambda>item. Settled (promise item) (Rejected AbortError)) = rejection"
  by (simp add: rejection_def fun_eq_iff)

lemma manager3_eq: "manager3 = afterSubmits {9} threeTasks"
  unfolding manager3_def
  using history_submits[of host0 threeTasks "[9]"]
  by (simp add: host0_def threeTasks_def task0_def)

text \<open>
  Claim C7.  After \<open>cancelAll()\<close> the queue is empty and \<open>getQueueLength()\<close> is 0; the
  call rejected with \<open>AbortError\<close> the promise of every entry that was queued, in queue
  order, and then disposed the renderers that were active.
\<close>

theorem C7_cancelAll_clears:
  "queue (cancelAll m) = [] \<and> getQueueLength (cancelAll m) = 0 \<and>
   trace (cancelAll m) = trace m @ map rejection (queue m) @ map Disposed (activeRenderers m) \<and>
   (\<forall>item \<in> set (queue m). Settled (promise item) (Rejected AbortError) \<in> set (trace (cancelAll m)))"
  by (auto simp: cancelAll_def getQueueLength_def Let_def rejection_eq rejection_def)

theorem C7_cancelAll_clears_witness:
  "queue manager3 = [\<lparr>task = task0 JpgSequence ''pose'', promise = 2\<rparr>] \<and>
   activeRenderers manager3 = [0, 1] \<and>
   queue (cancelAll manager3) = [] \<and> getQueueLength (cancelAll manager3) = 0 \<and>
   trace (cancelAll manager3) =
     [Constructed 0 0, Constructed 1 1, Settled 2 (Rejected AbortError), Disposed 0, Disposed 1] \<and>
   Settled 2 (Rejected AbortError) \<in> set (trace (cancelAll manager3))"
proof -
  have q: "queue manager3 = [\<lparr>task = task0 JpgSequence ''pose'', promise = 2\<rparr>]"
    and a: "activeRenderers manager3 = [0, 1]"
    and t: "trace manager3 = [Constructed 0 0, Constructed 1 1]"
    by (simp_all add: manager3_eq afterSubmits_def threeTasks_def entries_def enumerate_eq_zip
        numeral_2_eq_2 numeral_3_eq_3)
  from C7_cancelAll_clears[of manager3] show ?thesis
    by (simp add: q a t rejection_def)
qed

text \<open>
  Claim C6.  When \<open>processQueue\<close> finds a free slot and the entries \<open>pre\<close> at the head of
  the queue all have their signal set, it rejects each of them with \<open>AbortError\<close> and
  goes on with the rest of the queue in the same call; no renderer is constructed for
  them: if the queue ends there the call constructs none, and otherwise (on a host with
  WebGL) the one renderer it constructs is for the first entry whose signal is not set,
  which it admits.
\<close>

theorem C6_precancelled_skipped:
  assumes "length (activeRenderers m) < maxConcurrent m"
    and "queue m = pre @ rest"
    and "\<forall>item \<in> set pre. signalAborted m (abortSignal (task item))"
  shows "processQueue h m =
           processQueue h (m\<lparr>queue := rest, trace := trace m @ map rejection pre\<rparr>) \<and>
         (rest = [] \<longrightarrow>
            processQueue h m = m\<lparr>queue := [], trace := trace m @ map rejection pre\<rparr>) \<and>
         (\<forall>item rest'.
            webgl h \<and> rest = item # rest' \<and> \<not> signalAborted m (abortSignal (task item)) \<longrightarrow>
            processQueue h m =
              m\<lparr>queue := rest', nextRenderer := nextRenderer m + 1,
                activeRenderers := setAdd (nextRenderer m) (activeRenderers m),
                running := running m @ [(nextRenderer m, item)],
                trace := trace m @ map rejection pre @
                         [Constructed (nextRenderer m) (promise item)]\<rparr>)"
proof -
  let ?m' = "m\<lparr>queue := rest, trace := trace m @ map rejection pre\<rparr>"
  have step: "processQueue h m = processQueue h ?m'"
    using processQueue_cancelled_prefix[OF assms, of h] by (simp add: rejection_eq)
  have empty: "rest = [] \<Longrightarrow> processQueue h ?m' = ?m'"
    by (simp add: processQueue_empty)
  have admit: "processQueue h ?m' =
      m\<lparr>queue := rest', nextRenderer := nextRenderer m + 1,
        activeRenderers := setAdd (nextRenderer m) (activeRenderers m),
        running := running m @ [(nextRenderer m, item)],
        trace := trace m @ map rejection pre @ [Constructed (nextRenderer m) (promise item)]\<rparr>"
    if "webgl h" "rest = item # rest'" "\<not> signalAborted m (abortSignal (task item))"
    for item rest'
    using processQueue_admit[of ?m' item rest' h] that assms(1)
    by (simp add: signalAborted_eq)
  show ?thesis using step empty admit by auto
qed

theorem C6_precancelled_skipped_witness:
  "length (activeRenderers manager6) < maxConcurrent manager6 \<and>
   queue manager6 = [cancelledEntry] @ [liveEntry] \<and>
   signalAborted manager6 (abortSignal (task cancelledEntry)) \<and>
   webgl host0 \<and> \<not> signalAborted manager6 (abortSignal (task liveEntry)) \<and>
   trace (processQueue host0 manager6) = [Settled 0 (Rejected AbortError), Constructed 0 1] \<and>
   running (processQueue host0 manager6) = [(0, liveEntry)] \<and>
   queue (processQueue host0 manager6) = [] \<and>
   nextRenderer (processQueue host0 manager6) = 1"
proof -
  have h1: "length (activeRenderers manager6) < maxConcurrent manager6"
    and h2: "queue manager6 = [cancelledEntry] @ [liveEntry]"
    and h3: "\<forall>item \<in> set [cancelledEntry]. signalAborted manager6 (abortSignal (task item))"
    and h4: "webgl host0" "\<not> signalAborted manager6 (abortSignal (task liveEntry))"
    by (simp_all add: manager6_def newExportManager_def cancelledEntry_def liveEntry_def
        task0_def signalAborted_def host0_def)
  from C6_precancelled_skipped[OF h1 h2 h3, of host0] h4
  have "processQueue host0 manager6 =
      manager6\<lparr>queue := [], nextRenderer := nextRenderer manager6 + 1,
        activeRenderers := setAdd (nextRenderer manager6) (activeRenderers manager6),
        running := running manager6 @ [(nextRenderer manager6, liveEntry)],
        trace := trace manager6 @ map rejection [cancelledEntry] @
                 [Constructed (nextRenderer manager6) (promise liveEntry)]\<rparr>"
    by blast
  then show ?thesis
    using h1 h2 h3 h4
    by (simp add: manager6_def newExportManager_def rejection_def cancelledEntry_def
        liveEntry_def)
qed

text \<open>
  Claim C2.  In every history of a new manager the active set holds at most
  \<open>maxConcurrent = 2\<close> renderers.  An entry that waits in the queue starts running only
  in the step in which a job that holds a slot of the active set settles.  On a host
  with WebGL, more than two tasks whose signals are not set, submitted to a new manager,
  leave exactly the first two admitted, each with a renderer of its own, and all the
  others queued in order.
\<close>

theorem C2_concurrency_cap:
  assumes "m = history h acts newExportManager"
  shows "length (activeRenderers m) \<le> maxConcurrent m \<and> maxConcurrent m = 2 \<and>
         (\<forall>item r a.
            item \<in> set (queue m) \<and> (r, item) \<in> set (running (perform h a m)) \<longrightarrow>
            (\<exists>rid e. a = Finish rid e \<and> rid \<in> set (activeRenderers m))) \<and>
         (webgl h \<and> acts = map Abort sigs @ map Submit tasks \<and> 2 < length tasks \<and>
          (\<forall>t \<in> set tasks. \<forall>s \<in> set sigs. abortSignal t \<noteq> Some s) \<longrightarrow>
            activeRenderers m = [0, 1] \<and>
            running m = [(0, \<lparr>task = tasks ! 0, promise = 0\<rparr>),
                         (1, \<lparr>task = tasks ! 1, promise = 1\<rparr>)] \<and>
            queue m = drop 2 (entries 0 tasks) \<and>
            length (queue m) = length tasks - 2 \<and>
            trace m = [Constructed 0 0, Constructed 1 1])"
proof -
  have cap: "length (activeRenderers m) \<le> maxConcurrent m"
    unfolding assms
    using history_cap[of newExportManager h acts] by (simp add: newExportManager_def)
  have two: "maxConcurrent m = 2"
    unfolding assms by (simp add: newExportManager_def)
  have wf: "wellFormed m"
    unfolding assms by (rule wellFormed_history[OF wellFormed_new])
  have sat: "webgl h \<longrightarrow> saturated m"
    unfolding assms using saturated_history[OF _ wellFormed_new saturated_new] by blast
  have adm: "\<exists>rid e. a = Finish rid e \<and> rid \<in> set (activeRenderers m)"
    if "item \<in> set (queue m)" "(r, item) \<in> set (running (perform h a m))" for item r a
    using admitted_only_by_finish[OF wf sat that] .
  have sub: "activeRenderers m = [0, 1] \<and>
            running m = [(0, \<lparr>task = tasks ! 0, promise = 0\<rparr>),
                         (1, \<lparr>task = tasks ! 1, promise = 1\<rparr>)] \<and>
            queue m = drop 2 (entries 0 tasks) \<and>
            length (queue m) = length tasks - 2 \<and>
            trace m = [Constructed 0 0, Constructed 1 1]"
    if w: "webgl h" and a: "acts = map Abort sigs @ map Submit tasks" and n: "2 < length tasks"
      and live: "\<forall>t \<in> set tasks. \<forall>s \<in> set sigs. abortSignal t \<noteq> Some s"
  proof -
    have m: "m = afterSubmits (set sigs) tasks"
      unfolding assms a by (rule history_submits[OF w live])
    obtain t0 t1 ts where ts: "tasks = t0 # t1 # ts"
      using n by (cases tasks; cases "tl tasks") auto
    have mn: "min 2 (length tasks) = 2" using n by simp
    show ?thesis
      unfolding m afterSubmits_def
      by (simp add: mn) (simp add: ts entries_def enumerate_eq_zip numeral_2_eq_2 upt_rec)
  qed
  show ?thesis using cap two adm sub by blast
qed

theorem C2_concurrency_cap_witness:
  "manager3 = history host0 (map Abort [9] @ map Submit threeTasks) newExportManager \<and>
   webgl host0 \<and> 2 < length threeTasks \<and>
   abortSignal (threeTasks ! 0) \<noteq> Some 9 \<and> abortSignal (threeTasks ! 1) \<noteq> Some 9 \<and>
   abortSignal (threeTasks ! 2) \<noteq> Some 9 \<and>
   length (activeRenderers manager3) \<le> maxConcurrent manager3 \<and> maxConcurrent manager3 = 2 \<and>
   activeRenderers manager3 = [0, 1] \<and>
   queue manager3 = [\<lparr>task = task0 JpgSequence ''pose'', promise = 2\<rparr>] \<and>
   length (queue manager3) = length threeTasks - 2 \<and>
   trace manager3 = [Constructed 0 0, Constructed 1 1] \<and>
   \<lparr>task = task0 JpgSequence ''pose'', promise = 2\<rparr> \<in> set (queue manager3) \<and>
   (2, \<lparr>task = task0 JpgSequence ''pose'', promise = 2\<rparr>)
     \<in> set (running (perform host0 (Finish 0 (goodJob 10)) manager3)) \<and>
   0 \<in> set (activeRenderers manager3)"
proof -
  have adm: "\<lparr>task = task0 JpgSequence ''pose'', promise = 2\<rparr> \<in> set (queue manager3)"
    "(2, \<lparr>task = task0 JpgSequence ''pose'', promise = 2\<rparr>)
       \<in> set (running (perform host0 (Finish 0 (goodJob 10)) manager3))"
    by code_simp+
  from C2_concurrency_cap[OF manager3_def, of "[9]" threeTasks] adm
  have "\<exists>rid e. Finish 0 (goodJob 10) = Finish rid e \<and> rid \<in> set (activeRenderers manager3)"
    by blast
  then have slot: "0 \<in> set (activeRenderers manager3)" by simp
  have h: "webgl host0" "2 < length threeTasks"
    "\<forall>t \<in> set threeTasks. \<forall>s \<in> set [9]. abortSignal t \<noteq> Some s"
    by (simp_all add: host0_def threeTasks_def task0_def)
  from C2_concurrency_cap[OF manager3_def, of "[9]" threeTasks] h
  have "length (activeRenderers manager3) \<le> maxConcurrent manager3 \<and> maxConcurrent manager3 = 2 \<and>
        activeRenderers manager3 = [0, 1] \<and>
        queue manager3 = drop 2 (entries 0 threeTasks) \<and>
        length (queue manager3) = length threeTasks - 2 \<and>
        trace manager3 = [Constructed 0 0, Constructed 1 1]"
    by blast
  then show ?thesis
    using h adm slot
    by (simp add: manager3_def) (simp add: threeTasks_def entries_def enumerate_eq_zip task0_def)
qed

section \<open>Claims on a job\<close>

text \<open>
  Claim C3, as stated, fails: for a task with no explicit duration on an animation of
  intrinsic duration 0, the resolved duration is 2, not the intrinsic duration.
\<close>

theorem C3_fallback_counterexample:
  "duration poseTask = None \<and> totalTime poseRenderer = 0 \<and>
   recordDurationOf poseTask poseRenderer = 2 \<and>
   recordDurationOf poseTask poseRenderer \<noteq> totalTime poseRenderer"
  by code_simp

text \<open>
  Claim C3, amended.  When the bundle has loaded and holds the animation of the task with
  intrinsic duration \<open>d\<close>, the resolved duration is the explicit duration if that is
  positive; otherwise it is \<open>d\<close> if \<open>d\<close> is not 0, and 2 seconds if \<open>d\<close> is 0.
\<close>

theorem C3_resolved_duration:
  assumes "skeleton r = Some anims" and "map_of anims (animation t) = Some d"
  shows "recordDurationOf t (applyRenderParams t r) =
           (case duration t of
              Some x \<Rightarrow> if x > 0 then x else if d = 0 then 2 else d
            | None \<Rightarrow> if d = 0 then 2 else d)"
  using applyRenderParams_totalTime[OF assms]
  by (simp add: recordDurationOf_resolved resolvedDuration_def)

theorem C3_resolved_duration_witness:
  "skeleton (fst (load (loadResult (goodJob 0)) files0 (renderer newOffscreenRenderer)))
     = Some [(''walk'', 1), (''pose'', 0)] \<and>
   map_of [(''walk'', 1), (''pose'', 0 :: rat)] (animation (task0 PngSequence ''walk'')) = Some 1 \<and>
   duration (task0 PngSequence ''walk'') = Some 1 \<and>
   recordDurationOf (task0 PngSequence ''walk'')
     (applyRenderParams (task0 PngSequence ''walk'')
        (fst (load (loadResult (goodJob 0)) files0 (renderer newOffscreenRenderer)))) = 1"
proof -
  have h1: "skeleton (fst (load (loadResult (goodJob 0)) files0 (renderer newOffscreenRenderer)))
     = Some [(''walk'', 1), (''pose'', 0)]"
    by (simp add: load_def goodJob_def files0_def computeGlobalBounds_def Let_def)
  have h2: "map_of [(''walk'', 1), (''pose'', 0 :: rat)] (animation (task0 PngSequence ''walk'')) = Some 1"
    by (simp add: task0_def)
  from C3_resolved_duration[OF h1 h2] h1 h2 show ?thesis
    by (simp add: task0_def)
qed









text \<open>
  Claim C9, as stated, fails: \<open>#1g2g3g\<close> is not \<open>transparent\<close> and has no
  hexadecimal pairs at positions 1 to 6, yet no component stored for it is \<open>NaN\<close>,
  since \<open>parseInt\<close> reads the leading digit of each slice.
\<close>

theorem C9_no_NaN_counterexample:
  "''#1g2g3g'' \<noteq> ''transparent'' \<and> \<not> hexPairs ''#1g2g3g'' \<and>
   bgColor (setBackgroundColor ''#1g2g3g'' (newSpineRenderer 1920 1080))
     = (Num (1 / 255), Num (2 / 255), Num (3 / 255), Num 1) \<and>
   \<not> hasNaN (bgColor (setBackgroundColor ''#1g2g3g'' (newSpineRenderer 1920 1080)))"
  by code_simp

text \<open>
  Claim C9, amended.  \<open>setBackgroundColor\<close> raises no error and validates nothing.
  For a string other than \<open>transparent\<close>, each of the components r, g, b it stores is
  \<open>NaN\<close> exactly when \<open>parseInt\<close> reads no number from its slice (1-3, 3-5, 5-7),
  and alpha is \<open>NaN\<close> exactly when the string has 9 characters and the slice 7-9 gives
  no number.  Every later \<open>updateAndRender\<close> passes the stored components unchanged
  to \<open>gl.clearColor\<close>.
\<close>

theorem C9_background_components:
  assumes "hex \<noteq> ''transparent''"
  shows "\<exists>cr cg cb ca.
           bgColor (setBackgroundColor hex r) = (cr, cg, cb, ca) \<and>
           (cr = NaN \<longleftrightarrow> \<not> parsesAsHex (slice 1 3 hex)) \<and>
           (cg = NaN \<longleftrightarrow> \<not> parsesAsHex (slice 3 5 hex)) \<and>
           (cb = NaN \<longleftrightarrow> \<not> parsesAsHex (slice 5 7 hex)) \<and>
           (ca = NaN \<longleftrightarrow> length hex = 9 \<and> \<not> parsesAsHex (slice 7 9 hex)) \<and>
           (\<forall>dts. clearColors (gl (renderFrames dts (setBackgroundColor hex r))) =
                   clearColors (gl r) @ replicate (length dts) (ClearColor cr cg cb ca))"
proof -
  let ?cr = "js_div (parseInt16 (slice 1 3 hex)) 255"
  let ?cg = "js_div (parseInt16 (slice 3 5 hex)) 255"
  let ?cb = "js_div (parseInt16 (slice 5 7 hex)) 255"
  let ?ca = "if length hex = 9 then js_div (parseInt16 (slice 7 9 hex)) 255 else Num 1"
  have b: "bgColor (setBackgroundColor hex r) = (?cr, ?cg, ?cb, ?ca)"
    and g: "gl (setBackgroundColor hex r) = gl r"
    using assms by (simp_all add: setBackgroundColor_def Let_def)
  have n: "?cr = NaN \<longleftrightarrow> \<not> parsesAsHex (slice 1 3 hex)"
    "?cg = NaN \<longleftrightarrow> \<not> parsesAsHex (slice 3 5 hex)"
    "?cb = NaN \<longleftrightarrow> \<not> parsesAsHex (slice 5 7 hex)"
    "?ca = NaN \<longleftrightarrow> length hex = 9 \<and> \<not> parsesAsHex (slice 7 9 hex)"
    using component_NaN[of 3 1 hex] component_NaN[of 5 3 hex] component_NaN[of 7 5 hex]
      component_NaN[of 9 7 hex]
    by simp_all
  have f: "clearColors (gl (renderFrames dts (setBackgroundColor hex r))) =
                   clearColors (gl r) @ replicate (length dts) (ClearColor ?cr ?cg ?cb ?ca)" for dts
    using renderFrames_gl[of dts "setBackgroundColor hex r"] by (simp add: b g)
  show ?thesis using b n f by blast
qed

theorem C9_background_components_witness:
  "''#123'' \<noteq> ''transparent'' \<and>
   bgColor (setBackgroundColor ''#123'' (newSpineRenderer 1920 1080))
     = (Num (6 / 85), Num (1 / 85), NaN, Num 1) \<and>
   parsesAsHex (slice 1 3 ''#123'') \<and> parsesAsHex (slice 3 5 ''#123'') \<and>
   \<not> parsesAsHex (slice 5 7 ''#123'') \<and>
   clearColors (gl (renderFrames [1 / 2, 1 / 2]
                      (setBackgroundColor ''#123'' (newSpineRenderer 1920 1080))))
     = [ClearColor (Num (6 / 85)) (Num (1 / 85)) NaN (Num 1),
        ClearColor (Num (6 / 85)) (Num (1 / 85)) NaN (Num 1)] \<and>
   hasNaN (bgColor (setBackgroundColor ''red'' (newSpineRenderer 1920 1080))) \<and>
   hasNaN (bgColor (setBackgroundColor [] (newSpineRenderer 1920 1080)))"
proof -
  have ne: "''#123'' \<noteq> ''transparent''" by simp
  have bg: "bgColor (setBackgroundColor ''#123'' (newSpineRenderer 1920 1080))
     = (Num (6 / 85), Num (1 / 85), NaN, Num 1)"
    by code_simp
  have ex: "hasNaN (bgColor (setBackgroundColor ''red'' (newSpineRenderer 1920 1080)))"
    "hasNaN (bgColor (setBackgroundColor [] (newSpineRenderer 1920 1080)))"
    by code_simp+
  have g0: "clearColors (gl (newSpineRenderer 1920 1080)) = []"
    by (simp add: clearColors_def newSpineRenderer_def)
  from C9_background_components[OF ne, of "newSpineRenderer 1920 1080"] obtain cr cg cb ca where
    b: "bgColor (setBackgroundColor ''#123'' (newSpineRenderer 1920 1080)) = (cr, cg, cb, ca)"
    and n: "(cr = NaN) = (\<not> parsesAsHex (slice 1 3 ''#123''))"
      "(cg = NaN) = (\<not> parsesAsHex (slice 3 5 ''#123''))"
      "(cb = NaN) = (\<not> parsesAsHex (slice 5 7 ''#123''))"
    and f: "clearColors (gl (renderFrames [1 / 2, 1 / 2]
                (setBackgroundColor ''#123'' (newSpineRenderer 1920 1080)))) =
            clearColors (gl (newSpineRenderer 1920 1080)) @
            replicate (length [1 / 2, 1 / 2 :: rat]) (ClearColor cr cg cb ca)"
    by blast
  have v: "cr = Num (6 / 85)" "cg = Num (1 / 85)" "cb = NaN" "ca = Num 1"
    using b bg by simp_all
  show ?thesis
    using ne bg ex f n by (simp add: v g0 numeral_2_eq_2)
qed

section \<open>Claims on the batch export\<close>

text \<open>
  Claim C10, as stated, fails: with three jobs submitted, more than \<open>maxConcurrent\<close>,
  the selected asset \<open>b\<close>, whose scan failed, is never marked \<open>exporting\<close> (it shows
  \<open>failed\<close>), and one job waits in the queue, not most of them.
\<close>

theorem C10_unscanned_asset_counterexample:
  "length (snd (scanned batchABC config0 (Some 1) [itemA, itemB] {})) = 3 \<and>
   maxConcurrent (manager submittedABC) = 2 \<and>
   length (queue (manager submittedABC)) = 1 \<and>
   Status ''b'' Exporting \<notin> set (trace (manager submittedABC)) \<and>
   lastStatus (trace (manager submittedABC)) ''b'' = Some Failed \<and>
   lastStatus (trace (manager submittedABC)) ''a'' = Some Exporting"
  by code_simp

text \<open>
  Claim C10, amended.  When the scan has ended and no cancellation is requested, the
  submission reports, for each planned task in order, the start progress event and the
  status \<open>exporting\<close> of its asset, and only then hands the task to the manager: the
  first two tasks are admitted right after their own events, the others wait in the
  queue with their events already reported.  So an asset is marked \<open>exporting\<close> exactly
  when it owns a planned task, every such asset shows \<open>exporting\<close> when the submission
  ends, and nothing that happens later (a job settling, an admission from the queue)
  reports \<open>exporting\<close> again.
\<close>

theorem C10_start_events_at_submission:
  assumes "webgl h"
    and "scanned env cfg sg items ab0 = (m1, tasks)"
    and "\<not> signalAborted m1 sg"
    and "b = submitPhase h cfg sg tasks m1"
  shows "trace (manager b) =
           trace m1 @ [Progress 0 (length tasks) Preparing] @ startEvents (length tasks) 0 tasks \<and>
         activeRenderers (manager b) = [0..<min 2 (length tasks)] \<and>
         map promise (queue (manager b)) = [2..<length tasks] \<and>
         (\<forall>i. Status i Exporting \<in> set (trace (manager b)) \<longleftrightarrow>
                i \<in> (\<lambda>x. itemId (fst x)) ` set tasks) \<and>
         (\<forall>x \<in> set tasks. lastStatus (trace (manager b)) (itemId (fst x)) = Some Exporting) \<and>
         (\<forall>sts. filter isExporting (trace (manager (runSteps h cfg sg (length tasks) sts b))) =
                 filter isExporting (trace (manager b)))"
proof -
  note sp = scanned_props[OF assms(2)]
  have eq: "b =
           \<lparr> manager = (afterSubmits (abortedSignals m1) (map (\<lambda>(item, anim, t). t) tasks))
                          \<lparr>trace := trace m1 @ [Progress 0 (length tasks) Preparing] @
                                    startEvents (length tasks) 0 tasks\<rparr>,
             completed = 0, zip = [],
             closures = map (\<lambda>(i, (item, anim, t)). (i, item, anim)) (enumerate 0 tasks) \<rparr>"
    unfolding assms(4) by (rule submitPhase_eq[OF assms(1) sp(1,2) assms(3)])
  have tr: "trace (manager b) =
           trace m1 @ [Progress 0 (length tasks) Preparing] @ startEvents (length tasks) 0 tasks"
    by (subst eq) simp
  have ar: "activeRenderers (manager b) = [0..<min 2 (length tasks)]"
    by (subst eq) (simp add: afterSubmits_def)
  have "queue (manager b) = drop 2 (entries 0 (map (\<lambda>(item, anim, t). t) tasks))"
    by (subst eq) (simp add: afterSubmits_def)
  then have qu: "map promise (queue (manager b)) = [2..<length tasks]"
    using promise_entries[of 0 "map (\<lambda>(item, anim, t). t) tasks"]
    by (simp add: drop_map[symmetric] numeral_2_eq_2)
  have no1: "Status i Exporting \<notin> set (trace m1)" for i
    using sp(3) by (auto simp: filter_empty_conv)
  have ex: "Status i Exporting \<in> set (trace (manager b)) \<longleftrightarrow>
                i \<in> (\<lambda>x. itemId (fst x)) ` set tasks" for i
    unfolding tr using no1[of i] exporting_startEvents[of i "length tasks" 0 tasks] by simp
  have ls: "lastStatus (trace (manager b)) (itemId (fst x)) = Some Exporting" if "x \<in> set tasks" for x
  proof -
    have "lastStatus (startEvents (length tasks) 0 tasks) (itemId (fst x)) = Some Exporting"
      using that by (simp add: lastStatus_startEvents)
    then show ?thesis
      unfolding tr by (simp add: lastStatus_append)
  qed
  have la: "filter isExporting (trace (manager (runSteps h cfg sg (length tasks) sts b))) =
                 filter isExporting (trace (manager b))" for sts
    by (rule runSteps_exporting)
  show ?thesis using tr ar qu ex ls la by blast
qed

theorem C10_start_events_at_submission_witness:
  "webgl host0 \<and>
   scanned batchABC config0 (Some 1) [itemA, itemB] {} =
     (fst (scanned batchABC config0 (Some 1) [itemA, itemB] {}),
      snd (scanned batchABC config0 (Some 1) [itemA, itemB] {})) \<and>
   \<not> signalAborted (fst (scanned batchABC config0 (Some 1) [itemA, itemB] {})) (Some 1) \<and>
   length (snd (scanned batchABC config0 (Some 1) [itemA, itemB] {})) = 3 \<and>
   trace (manager submittedABC) =
     [Status ''a'' Waiting, Status ''b'' Waiting, Status ''b'' Failed, Progress 0 3 Preparing,
      Progress 1 3 (TaskName ''A'' ''walk''), Status ''a'' Exporting, Constructed 0 0,
      Progress 1 3 (TaskName ''A'' ''pose''), Status ''a'' Exporting, Constructed 1 1,
      Progress 1 3 (TaskName ''A'' ''idle''), Status ''a'' Exporting] \<and>
   activeRenderers (manager submittedABC) = [0, 1] \<and>
   map promise (queue (manager submittedABC)) = [2] \<and>
   lastStatus (trace (manager submittedABC)) ''a'' = Some Exporting \<and>
   filter isExporting (trace (manager
      (runSteps host0 config0 (Some 1) 3 [JobDone 0 (goodJob 10)] submittedABC)))
     = [Status ''a'' Exporting, Status ''a'' Exporting, Status ''a'' Exporting]"
proof -
  let ?S = "scanned batchABC config0 (Some 1) [itemA, itemB] {}"
  have h1: "webgl host0" by (simp add: host0_def)
  have h2: "?S = (fst ?S, snd ?S)" by simp
  have h3: "\<not> signalAborted (fst ?S) (Some 1)" by code_simp
  have n: "length (snd ?S) = 3" by code_simp
  have t1: "trace (fst ?S) = [Status ''a'' Waiting, Status ''b'' Waiting, Status ''b'' Failed]"
    by code_simp
  have se: "startEvents 3 0 (snd ?S) =
     [Progress 1 3 (TaskName ''A'' ''walk''), Status ''a'' Exporting, Constructed 0 0,
      Progress 1 3 (TaskName ''A'' ''pose''), Status ''a'' Exporting, Constructed 1 1,
      Progress 1 3 (TaskName ''A'' ''idle''), Status ''a'' Exporting]"
    by code_simp
  have mem: "(itemA, ''walk'', makeTask config0 (Some 1) itemA ''walk'') \<in> set (snd ?S)"
    by code_simp
  from C10_start_events_at_submission[OF h1 h2 h3 submittedABC_def]
  have tr: "trace (manager submittedABC) =
           trace (fst ?S) @ [Progress 0 (length (snd ?S)) Preparing] @
           startEvents (length (snd ?S)) 0 (snd ?S)"
    and ar: "activeRenderers (manager submittedABC) = [0..<min 2 (length (snd ?S))]"
    and qu: "map promise (queue (manager submittedABC)) = [2..<length (snd ?S)]"
    and ls: "\<forall>x \<in> set (snd ?S). lastStatus (trace (manager submittedABC)) (itemId (fst x)) = Some Exporting"
    and la: "\<forall>sts. filter isExporting (trace (manager (runSteps host0 config0 (Some 1) (length (snd ?S)) sts submittedABC))) =
                 filter isExporting (trace (manager submittedABC))"
    by blast+
  have lsa: "lastStatus (trace (manager submittedABC)) ''a'' = Some Exporting"
    using ls mem by (auto simp: itemA_def)
  have tr': "trace (manager submittedABC) =
     [Status ''a'' Waiting, Status ''b'' Waiting, Status ''b'' Failed, Progress 0 3 Preparing,
      Progress 1 3 (TaskName ''A'' ''walk''), Status ''a'' Exporting, Constructed 0 0,
      Progress 1 3 (TaskName ''A'' ''pose''), Status ''a'' Exporting, Constructed 1 1,
      Progress 1 3 (TaskName ''A'' ''idle''), Status ''a'' Exporting]"
    unfolding tr n t1 se by simp
  have fe: "filter isExporting (trace (manager
      (runSteps host0 config0 (Some 1) 3 [JobDone 0 (goodJob 10)] submittedABC)))
     = [Status ''a'' Exporting, Status ''a'' Exporting, Status ''a'' Exporting]"
    using la[unfolded n, rule_format, of "[JobDone 0 (goodJob 10)]"] by (simp add: tr')
  show ?thesis
    using h1 h3 n tr' ar qu lsa fe by (simp add: numeral_2_eq_2 numeral_3_eq_3 upt_rec)
qed

text \<open>
  Claim C4, on the code.  Asset \<open>a\<close> loads with two animations and asset \<open>b\<close> fails
  during the scan; both jobs end well.  The run returns 2, both promises are resolved,
  the archive downloaded has the two entries, and asset \<open>a\<close> ends \<open>completed\<close>; but
  asset \<open>b\<close>, reported \<open>failed\<close> by the scan, ends \<open>completed\<close> as well: the last
  status pass overwrites the failure.
\<close>

theorem C4_failed_scan_overwritten:
  "fst (processExportWithOffscreen host0 batchAB [itemA, itemB] config0 (Some 1) {}) = Returned 2 \<and>
   filter isSettled (snd (processExportWithOffscreen host0 batchAB [itemA, itemB] config0 (Some 1) {}))
     = [Settled 0 (Resolved 10), Settled 1 (Resolved 11)] \<and>
   Status ''b'' Failed \<in> set (snd (processExportWithOffscreen host0 batchAB [itemA, itemB] config0 (Some 1) {})) \<and>
   Download [(''A_walk.zip'', 10), (''A_pose.zip'', 11)]
     \<in> set (snd (processExportWithOffscreen host0 batchAB [itemA, itemB] config0 (Some 1) {})) \<and>
   lastStatus (snd (processExportWithOffscreen host0 batchAB [itemA, itemB] config0 (Some 1) {})) ''a''
     = Some Completed \<and>
   lastStatus (snd (processExportWithOffscreen host0 batchAB [itemA, itemB] config0 (Some 1) {})) ''b''
     = Some Completed"
  by code_simp


end
